theory Spec2Isabelle
  imports Complex_Main "HOL-Library.AList"
begin

section \<open>Data model (server/src/types/index.ts)\<close>

text \<open>
  \<^verbatim>\<open>type Team = 'red' | 'yellow'\<close>. A board cell is \<^verbatim>\<open>Team | null\<close>: \<open>None\<close> is
  \<^verbatim>\<open>null\<close>. A board is \<^verbatim>\<open>(Team | null)[][]\<close>, row-major, row 0 on top; nothing in
  the type fixes its shape, so the model is a list of rows of any lengths.
\<close>

datatype Team = Red | Yellow

type_synonym cell = "Team option"

type_synonym Board = "cell list list"

text \<open>
  \<^verbatim>\<open>lastMove?: { col; row; team }\<close>. Columns and rows are JavaScript numbers; the model
  takes them as integers (fractional indices are outside the model).
\<close>

record LastMove =
  mcol :: int
  mrow :: int
  mteam :: Team

text \<open>A \<^verbatim>\<open>Cell\<close> \<^verbatim>\<open>{ col, row }\<close> is the pair \<open>(col, row)\<close>.\<close>

type_synonym Cell = "int \<times> int"

text \<open>\<^verbatim>\<open>result?: { winner?; draw?; winningLine? }\<close>: an absent field is \<open>None\<close>.\<close>

record Result =
  rwinner :: "Team option"
  draw :: "bool option"
  rwinningLine :: "Cell list option"

text \<open>
  \<^verbatim>\<open>GameState\<close>. \<open>votes\<close> is the object \<^verbatim>\<open>Record<string, number>\<close> as an association
  list (assignment to a key is \<open>AList.update\<close>, lookup is \<open>map_of\<close>, \<^verbatim>\<open>{}\<close> is \<open>[]\<close>);
  \<open>roundNo\<close> is the field \<^verbatim>\<open>round\<close>; \<open>endsAt\<close> is epoch milliseconds.
\<close>

record GameState =
  board :: Board
  currentTeam :: Team
  roundNo :: int
  votes :: "(string \<times> int) list"
  perColumnCounts :: "nat list"
  endsAt :: "int option"
  lastMove :: "LastMove option"
  result :: "Result option"

text \<open>\<^verbatim>\<open>Player\<close>: \<open>pid\<close> is the field \<^verbatim>\<open>id\<close>, \<open>pteam\<close> the field \<^verbatim>\<open>team\<close>.\<close>

record Player =
  pid :: string
  nickname :: string
  pteam :: Team
  isAdmin :: bool
  matchingVotes :: nat
  connected :: bool

section \<open>GameEngine (server/src/engine/GameEngine.ts)\<close>

definition newBoard :: Board where
  "newBoard = replicate 6 (replicate 7 None)"

definition newGame :: GameState where
  "newGame = \<lparr> board = newBoard, currentTeam = Red, roundNo = 1, votes = [],
     perColumnCounts = [0, 0, 0, 0, 0, 0, 0], endsAt = None, lastMove = None,
     result = None \<rparr>"

text \<open>
  \<^verbatim>\<open>board[row]?.[col]\<close>: the outer \<open>None\<close> is JavaScript's \<^verbatim>\<open>undefined\<close> (no such row, or
  no such entry in the row), \<open>Some None\<close> is \<^verbatim>\<open>null\<close>, \<open>Some (Some t)\<close> a piece.
\<close>

definition cellAt :: "Board \<Rightarrow> int \<Rightarrow> int \<Rightarrow> cell option" where
  "cellAt b row col =
     (if 0 \<le> row \<and> row < int (length b)
      then (if 0 \<le> col \<and> col < int (length (b ! nat row))
            then Some (b ! nat row ! nat col) else None)
      else None)"

text \<open>
  \<^verbatim>\<open>if (col < 0 || col >= 7) return false; return !!(board[0] && board[0][col] === null)\<close>
\<close>

definition isValidMove :: "Board \<Rightarrow> int \<Rightarrow> bool" where
  "isValidMove b col =
     (if col < 0 \<or> col \<ge> 7 then False else cellAt b 0 col = Some None)"

text \<open>
  The errors \<^verbatim>\<open>applyMove\<close> throws: \<^verbatim>\<open>Error(`Invalid move: column ${col}`)\<close> and
  \<^verbatim>\<open>Error(`Column ${col} is full`)\<close>.
\<close>

datatype error = InvalidMove int | ColumnIsFull int

text \<open>
  The gravity loop \<^verbatim>\<open>for (let row = 5; row >= 0; row--)\<close>: \<open>findTargetRow b col n\<close>
  scans rows \<open>n - 1\<close> down to 0 and returns the first row whose cell is \<^verbatim>\<open>null\<close>;
  \<open>None\<close> is the loop ending with \<^verbatim>\<open>targetRow === -1\<close>.
\<close>

fun findTargetRow :: "Board \<Rightarrow> int \<Rightarrow> nat \<Rightarrow> int option" where
  "findTargetRow newB col 0 = None"
| "findTargetRow newB col (Suc row) =
     (if cellAt newB (int row) col = Some None then Some (int row)
      else findTargetRow newB col row)"

text \<open>
  \<^verbatim>\<open>applyMove\<close> on board values. The copy \<^verbatim>\<open>board.map(row => [...row])\<close> is the identity on
  values; what it means for the arrays behind them is modelled by \<open>applyMoveStore\<close>
  below.
\<close>

definition applyMove :: "Board \<Rightarrow> int \<Rightarrow> Team \<Rightarrow> error + (Board \<times> int)" where
  "applyMove b col team =
     (if \<not> isValidMove b col then Inl (InvalidMove col)
      else
        (let newB = map (\<lambda>row. row) b in
         case findTargetRow newB col 6 of
           None \<Rightarrow> Inl (ColumnIsFull col)
         | Some targetRow \<Rightarrow>
             Inr (newB[nat targetRow := (newB ! nat targetRow)[nat col := Some team]],
                  targetRow)))"

subsection \<open>applyMove on a store of row arrays\<close>

text \<open>
  A board is an array of references to row arrays. The store holds the row arrays, an
  address is an index into it, allocation appends. A board reference is the list of
  its rows' addresses (the outer array is never written by \<^verbatim>\<open>applyMove\<close>).
\<close>

type_synonym addr = nat

type_synonym store = "cell list list"

type_synonym boardRef = "addr list"

definition readBoard :: "store \<Rightarrow> boardRef \<Rightarrow> Board" where
  "readBoard h brd = map (\<lambda>a. h ! a) brd"

text \<open>\<^verbatim>\<open>board.map(row => [...row])\<close>: every row is copied into a fresh array.\<close>

definition copyRows :: "store \<Rightarrow> boardRef \<Rightarrow> store \<times> boardRef" where
  "copyRows h brd = (h @ map (\<lambda>a. h ! a) brd, [length h ..< length h + length brd])"

definition applyMoveStore ::
  "store \<Rightarrow> boardRef \<Rightarrow> int \<Rightarrow> Team \<Rightarrow> error + (store \<times> boardRef \<times> int)" where
  "applyMoveStore h brd col team =
     (if \<not> isValidMove (readBoard h brd) col then Inl (InvalidMove col)
      else
        (case copyRows h brd of (h1, newB) \<Rightarrow>
          (case findTargetRow (readBoard h1 newB) col 6 of
             None \<Rightarrow> Inl (ColumnIsFull col)
           | Some targetRow \<Rightarrow>
               (let a = newB ! nat targetRow in
                Inr (h1[a := (h1 ! a)[nat col := Some team]], newB, targetRow)))))"

subsection \<open>checkWin\<close>

text \<open>
  The guard of both loops of \<^verbatim>\<open>checkDirection\<close>:
  \<^verbatim>\<open>col >= 0 && col < 7 && row >= 0 && row < 6 && board[row]?.[col] === team\<close>.
\<close>

definition teamAt :: "Board \<Rightarrow> Team \<Rightarrow> int \<Rightarrow> int \<Rightarrow> bool" where
  "teamAt b team col row \<longleftrightarrow>
     col \<ge> 0 \<and> col < 7 \<and> row \<ge> 0 \<and> row < 6 \<and> cellAt b row col = Some (Some team)"

text \<open>
  The two \<^verbatim>\<open>while\<close> loops. With both deltas zero on a cell of the team they never end,
  so they are partial functions: \<open>None\<close> is not returning.
\<close>

partial_function (option) walkBackward ::
  "Board \<Rightarrow> Team \<Rightarrow> int \<Rightarrow> int \<Rightarrow> int \<Rightarrow> int \<Rightarrow> Cell option" where
  "walkBackward b team deltaCol deltaRow col row =
     (if teamAt b team col row
      then walkBackward b team deltaCol deltaRow (col - deltaCol) (row - deltaRow)
      else Some (col, row))"

partial_function (option) walkForward ::
  "Board \<Rightarrow> Team \<Rightarrow> int \<Rightarrow> int \<Rightarrow> int \<Rightarrow> int \<Rightarrow> Cell list \<Rightarrow> Cell list option" where
  "walkForward b team deltaCol deltaRow col row line =
     (if teamAt b team col row
      then walkForward b team deltaCol deltaRow (col + deltaCol) (row + deltaRow)
             (line @ [(col, row)])
      else Some line)"

definition checkDirection ::
  "Board \<Rightarrow> int \<Rightarrow> int \<Rightarrow> Team \<Rightarrow> int \<Rightarrow> int \<Rightarrow> Cell list option" where
  "checkDirection b startCol startRow team deltaCol deltaRow =
     (case walkBackward b team deltaCol deltaRow startCol startRow of
        None \<Rightarrow> None
      | Some (col, row) \<Rightarrow>
          walkForward b team deltaCol deltaRow (col + deltaCol) (row + deltaRow) [])"

text \<open>The four directions \<open>(deltaCol, deltaRow)\<close>, in the order \<^verbatim>\<open>checkWin\<close> scans them.\<close>

definition directions :: "(int \<times> int) list" where
  "directions = [(1, 0), (0, 1), (1, 1), (1, -1)]"

record WinResult =
  winner :: "Team option"
  winningLine :: "Cell list option"

fun checkWinLoop ::
  "Board \<Rightarrow> int \<Rightarrow> int \<Rightarrow> Team \<Rightarrow> (int \<times> int) list \<Rightarrow> WinResult option" where
  "checkWinLoop b col row team [] = Some \<lparr> winner = None, winningLine = None \<rparr>"
| "checkWinLoop b col row team ((deltaCol, deltaRow) # ds) =
     (case checkDirection b col row team deltaCol deltaRow of
        None \<Rightarrow> None
      | Some line \<Rightarrow>
          if length line \<ge> 4
          then Some \<lparr> winner = Some team, winningLine = Some (take 4 line) \<rparr>
          else checkWinLoop b col row team ds)"

definition checkWin :: "Board \<Rightarrow> LastMove \<Rightarrow> WinResult option" where
  "checkWin b mv = checkWinLoop b (mcol mv) (mrow mv) (mteam mv) directions"

text \<open>
  \<^verbatim>\<open>if (!board[0]) return false; for (col = 0..6) if (board[0][col] === null) return false;
  return true\<close>
\<close>

definition isBoardFull :: "Board \<Rightarrow> bool" where
  "isBoardFull b =
     (if b = [] then False
      else \<not> (\<exists>col \<in> set [0, 1, 2, 3, 4, 5, 6]. cellAt b 0 col = Some None))"

definition nextTeam :: "Team \<Rightarrow> Team" where
  "nextTeam team = (if team = Red then Yellow else Red)"

section \<open>MajorityTurnDecider (server/src/services/MajorityTurnDecider.ts)\<close>

text \<open>
  A count array is a list of natural numbers, one per column: counts are what
  \<^verbatim>\<open>tallyVotes\<close> produces, starting from seven zeros and adding one per counted vote. A
  list of valid columns is a list of integers.
\<close>

definition tallyVotes :: "(string \<times> int) list \<Rightarrow> int list \<Rightarrow> nat list" where
  "tallyVotes vs validCols =
     fold (\<lambda>column counts.
             if column \<in> set validCols \<and> column \<ge> 0 \<and> column < 7
             then counts[nat column := counts ! nat column + 1]
             else counts)
          (map snd vs) [0, 0, 0, 0, 0, 0, 0]"

text \<open>
  \<^verbatim>\<open>pickRandomColumn\<close>: \<open>r\<close> is the value \<^verbatim>\<open>Math.random()\<close> returns, a number in \<open>[0, 1)\<close>;
  the index is \<^verbatim>\<open>Math.floor(r * columns.length)\<close>. The product is taken in the reals
  (the rounding of the floating-point product is outside the model). For an \<open>r\<close> outside
  \<open>[0, 1)\<close> the index can leave the array, where the source returns \<^verbatim>\<open>undefined\<close>;
  \<^verbatim>\<open>Math.random()\<close> never returns such a number, and every statement about a pick
  assumes \<open>0 \<le> r\<close> and \<open>r < 1\<close>.
\<close>

definition pickRandomColumn :: "real \<Rightarrow> int list \<Rightarrow> int" where
  "pickRandomColumn r columns =
     (if length columns = 0 then 0
      else columns ! nat \<lfloor>r * real (length columns)\<rfloor>)"

text \<open>The loop that finds the maximum count among the valid columns.\<close>

definition maxVotesLoop :: "nat list \<Rightarrow> int list \<Rightarrow> nat" where
  "maxVotesLoop counts validCols =
     fold (\<lambda>col maxVotes.
             if int col \<in> set validCols \<and> counts ! col > maxVotes
             then counts ! col else maxVotes)
          [0 ..< length counts] 0"

definition tiedColumns :: "nat list \<Rightarrow> int list \<Rightarrow> nat \<Rightarrow> int list" where
  "tiedColumns counts validCols maxVotes =
     map int (filter (\<lambda>col. int col \<in> set validCols \<and> counts ! col = maxVotes)
                [0 ..< length counts])"

definition decideColumn :: "real \<Rightarrow> nat list \<Rightarrow> int list \<Rightarrow> int" where
  "decideColumn r counts validCols =
     (let totalVotes = sum_list counts in
      if totalVotes = 0 then pickRandomColumn r validCols
      else
        (let maxVotes = maxVotesLoop counts validCols in
         if maxVotes = 0 then pickRandomColumn r validCols
         else pickRandomColumn r (tiedColumns counts validCols maxVotes)))"

section \<open>TurnManager (server/src/services/TurnManager.ts)\<close>

text \<open>
  The manager's own state: the time its clock shows (\<^verbatim>\<open>this.clock.now()\<close>) and the
  pending deadline timer (\<^verbatim>\<open>this.currentTimeout\<close>: \<open>Some t\<close> is a timer set to fire at
  time \<open>t\<close>). The completion callback is not part of the model.
\<close>

record TurnManager =
  clockNow :: int
  currentTimeout :: "int option"

record VoteResult =
  success :: bool
  voteError :: "string option"

record TurnResult =
  moveApplied :: bool
  gameEnded :: bool
  chosenColumn :: "int option"
  turnError :: "error option"

text \<open>The error strings of \<^verbatim>\<open>castVote\<close>, under the names the specification gives them.\<close>

definition WindowClosed :: string where
  "WindowClosed = ''Voting window is closed''"

definition PlayerNotFound :: string where
  "PlayerNotFound = ''Player not found''"

definition WrongTeam :: string where
  "WrongTeam = ''Not your team'' @ [CHR 0x27] @ ''s turn''"

definition InvalidColumn :: string where
  "InvalidColumn = ''Invalid column''"

definition ColumnFull :: string where
  "ColumnFull = ''Column is full''"

definition startVoting :: "TurnManager \<Rightarrow> GameState \<Rightarrow> int \<Rightarrow> TurnManager \<times> GameState" where
  "startVoting tm gs timerSec =
     (let now = clockNow tm in
      (tm\<lparr> currentTimeout := Some (now + timerSec * 1000) \<rparr>,
       gs\<lparr> endsAt := Some (now + timerSec * 1000) \<rparr>))"

text \<open>
  \<^verbatim>\<open>castVote\<close>. The test \<^verbatim>\<open>!gameState.endsAt\<close> holds when the field is absent and
  also when it is the number 0.
\<close>

definition castVote ::
  "TurnManager \<Rightarrow> GameState \<Rightarrow> Player list \<Rightarrow> string \<Rightarrow> int \<Rightarrow> VoteResult \<times> GameState" where
  "castVote tm gs players playerId column =
     (if endsAt gs = None \<or> endsAt gs = Some 0
      then (\<lparr> success = False, voteError = Some WindowClosed \<rparr>, gs)
      else
        (case find (\<lambda>p. pid p = playerId) players of
           None \<Rightarrow> (\<lparr> success = False, voteError = Some PlayerNotFound \<rparr>, gs)
         | Some player \<Rightarrow>
             if pteam player \<noteq> currentTeam gs
             then (\<lparr> success = False, voteError = Some WrongTeam \<rparr>, gs)
             else if column < 0 \<or> column \<ge> 7
             then (\<lparr> success = False, voteError = Some InvalidColumn \<rparr>, gs)
             else if \<not> isValidMove (board gs) column
             then (\<lparr> success = False, voteError = Some ColumnFull \<rparr>, gs)
             else (\<lparr> success = True, voteError = None \<rparr>,
                   gs\<lparr> votes := AList.update playerId column (votes gs) \<rparr>)))"

text \<open>The loop collecting the playable columns, \<^verbatim>\<open>for (let col = 0; col < 7; col++)\<close>.\<close>

definition validColumns :: "Board \<Rightarrow> int list" where
  "validColumns b = filter (isValidMove b) [0, 1, 2, 3, 4, 5, 6]"

text \<open>
  \<^verbatim>\<open>finishVoting\<close>. \<open>r\<close> is the value \<^verbatim>\<open>Math.random()\<close> returns inside \<^verbatim>\<open>decideColumn\<close>.
  The result is the \<^verbatim>\<open>TurnResult\<close> with the manager, the game state and the roster as
  the call leaves them; \<open>None\<close> is not returning (a \<^verbatim>\<open>checkWin\<close> that runs forever).
  The \<^verbatim>\<open>catch\<close> branch keeps the thrown error itself where the source keeps its message.
\<close>

definition finishVoting ::
  "TurnManager \<Rightarrow> real \<Rightarrow> GameState \<Rightarrow> Player list \<Rightarrow>
     (TurnResult \<times> TurnManager \<times> GameState \<times> Player list) option" where
  "finishVoting tm r gameState players =
     (let gs1 = gameState\<lparr> endsAt := None \<rparr>;
          tm1 = tm\<lparr> currentTimeout := None \<rparr>;
          validCols = validColumns (board gs1)
      in
      if length validCols = 0
      then Some (\<lparr> moveApplied = False, gameEnded = True, chosenColumn = None,
                   turnError = None \<rparr>,
                 tm1,
                 gs1\<lparr> result := Some \<lparr> rwinner = None, draw = Some True,
                                       rwinningLine = None \<rparr> \<rparr>,
                 players)
      else
        (let counts = tallyVotes (votes gs1) validCols;
             gs2 = gs1\<lparr> perColumnCounts := counts \<rparr>;
             chosen = decideColumn r counts validCols;
             players1 = map (\<lambda>p. if pteam p = currentTeam gs2
                                      \<and> map_of (votes gs2) (pid p) = Some chosen
                                   then p\<lparr> matchingVotes := matchingVotes p + 1 \<rparr>
                                   else p) players;
             gs3 = gs2\<lparr> votes := [] \<rparr>
         in
         case applyMove (board gs3) chosen (currentTeam gs3) of
           Inl e \<Rightarrow>
             Some (\<lparr> moveApplied = False, gameEnded = False, chosenColumn = None,
                     turnError = Some e \<rparr>, tm1, gs3, players1)
         | Inr (newB, row) \<Rightarrow>
             (let mv = \<lparr> mcol = chosen, mrow = row, mteam = currentTeam gs3 \<rparr>;
                  gs4 = gs3\<lparr> board := newB, lastMove := Some mv \<rparr>
              in
              case checkWin (board gs4) mv of
                None \<Rightarrow> None
              | Some winResult \<Rightarrow>
                  (case winner winResult of
                     Some w \<Rightarrow>
                       Some (\<lparr> moveApplied = True, gameEnded = True,
                               chosenColumn = Some chosen, turnError = None \<rparr>,
                             tm1,
                             gs4\<lparr> result := Some \<lparr> rwinner = Some w, draw = None,
                                     rwinningLine = winningLine winResult \<rparr> \<rparr>,
                             players1)
                   | None \<Rightarrow>
                       if isBoardFull (board gs4)
                       then Some (\<lparr> moveApplied = True, gameEnded = True,
                                    chosenColumn = Some chosen, turnError = None \<rparr>,
                                  tm1,
                                  gs4\<lparr> result := Some \<lparr> rwinner = None, draw = Some True,
                                          rwinningLine = None \<rparr> \<rparr>,
                                  players1)
                       else Some (\<lparr> moveApplied = True, gameEnded = False,
                                    chosenColumn = Some chosen, turnError = None \<rparr>,
                                  tm1,
                                  gs4\<lparr> currentTeam := nextTeam (currentTeam gs4),
                                       roundNo := roundNo gs4 + 1 \<rparr>,
                                  players1)))))"

section \<open>Notions used in the statements\<close>

text \<open>
  The count a count array holds for a column: \<^verbatim>\<open>perColumnCounts[c]\<close>, with 0 for a column
  the array has no entry for.
\<close>

definition countOf :: "nat list \<Rightarrow> int \<Rightarrow> nat" where
  "countOf counts c = (if 0 \<le> c \<and> c < int (length counts) then counts ! nat c else 0)"

text \<open>
  A cell of the 7 by 6 grid that holds a piece of the team, read off the board directly.
\<close>

definition holdsTeam :: "Board \<Rightarrow> Team \<Rightarrow> int \<Rightarrow> int \<Rightarrow> bool" where
  "holdsTeam b team col row \<longleftrightarrow>
     0 \<le> col \<and> col < 7 \<and> 0 \<le> row \<and> row < 6
     \<and> nat row < length b \<and> nat col < length (b ! nat row)
     \<and> b ! nat row ! nat col = Some team"

text \<open>
  Four in a row through a cell along a direction: a window of four consecutive cells of
  the line through \<open>(col, row)\<close> with step \<open>(deltaCol, deltaRow)\<close> that contains the cell
  (as its \<open>j\<close>-th cell) and holds the team at all four.
\<close>

definition fourThrough :: "Board \<Rightarrow> Team \<Rightarrow> int \<Rightarrow> int \<Rightarrow> int \<times> int \<Rightarrow> bool" where
  "fourThrough b team col row d =
     (case d of (deltaCol, deltaRow) \<Rightarrow>
        \<exists>j \<in> set [0, 1, 2, 3].
          \<forall>i \<in> set [0, 1, 2, 3].
            holdsTeam b team (col + (i - j) * deltaCol) (row + (i - j) * deltaRow))"

text \<open>
  Four in a row through a cell: four in a row along one of the four axes through it, the
  horizontal one (step one column), the vertical one (step one row), the diagonal on
  which column and row grow together, and the diagonal on which the row falls as the
  column grows.
\<close>

definition fourInARow :: "Board \<Rightarrow> Team \<Rightarrow> int \<Rightarrow> int \<Rightarrow> bool" where
  "fourInARow b team col row \<longleftrightarrow>
     fourThrough b team col row (1, 0) \<or> fourThrough b team col row (0, 1)
     \<or> fourThrough b team col row (1, 1) \<or> fourThrough b team col row (1, - 1)"

text \<open>The number of entries of the vote map that name a column.\<close>

definition votesFor :: "(string \<times> int) list \<Rightarrow> int \<Rightarrow> nat" where
  "votesFor vs c = length (filter (\<lambda>v. snd v = c) vs)"

text \<open>
  The column \<^verbatim>\<open>finishVoting\<close> decides on for a state with a playable column (the tally of
  the votes over the playable columns, then \<^verbatim>\<open>decideColumn\<close>), and the roster it leaves:
  every active-team player whose vote is the chosen column has one more matching vote.
\<close>

definition chosenFor :: "real \<Rightarrow> GameState \<Rightarrow> int" where
  "chosenFor r gs =
     decideColumn r (tallyVotes (votes gs) (validColumns (board gs))) (validColumns (board gs))"

definition creditedPlayers :: "GameState \<Rightarrow> int \<Rightarrow> Player list \<Rightarrow> Player list" where
  "creditedPlayers gs chosen players =
     map (\<lambda>p. if pteam p = currentTeam gs \<and> map_of (votes gs) (pid p) = Some chosen
              then p\<lparr> matchingVotes := matchingVotes p + 1 \<rparr> else p) players"



section \<open>Example inputs\<close>

text \<open>The rows of a new board in a store, at addresses 0 to 5, and the board made of them.\<close>

definition emptyStore :: store where
  "emptyStore = replicate 6 (replicate 7 None)"

definition emptyRef :: boardRef where
  "emptyRef = [0, 1, 2, 3, 4, 5]"

text \<open>The roster of the repository's TurnManager tests.\<close>

definition players0 :: "Player list" where
  "players0 =
     [\<lparr> pid = ''p1'', nickname = ''Player1'', pteam = Red, isAdmin = False,
        matchingVotes = 0, connected = True \<rparr>,
      \<lparr> pid = ''p2'', nickname = ''Player2'', pteam = Red, isAdmin = False,
        matchingVotes = 0, connected = True \<rparr>,
      \<lparr> pid = ''p3'', nickname = ''Player3'', pteam = Yellow, isAdmin = False,
        matchingVotes = 0, connected = True \<rparr>,
      \<lparr> pid = ''p4'', nickname = ''Player4'', pteam = Yellow, isAdmin = False,
        matchingVotes = 0, connected = True \<rparr>]"

text \<open>A manager whose clock shows 0, the fake clock's start.\<close>

definition tm0 :: TurnManager where
  "tm0 = \<lparr> clockNow = 0, currentTimeout = None \<rparr>"

text \<open>A new game with a window open until 15000, and one whose deadline is the number 0.\<close>

definition openGame :: GameState where
  "openGame = newGame\<lparr> endsAt := Some 15000 \<rparr>"

definition zeroDeadlineGame :: GameState where
  "zeroDeadlineGame = newGame\<lparr> endsAt := Some 0 \<rparr>"

text \<open>A board whose column 0 is full and a game on it with an open window.\<close>

definition column0Full :: Board where
  "column0Full = replicate 6 (Some Yellow # replicate 6 None)"

definition column0FullGame :: GameState where
  "column0FullGame = openGame\<lparr> board := column0Full \<rparr>"

text \<open>
  A full board (the pattern of the tests' draw case, completed), and a game on it with an
  open window and a vote left in the vote map.
\<close>

definition fullBoard :: Board where
  "fullBoard =
     [[Some Red, Some Yellow, Some Red, Some Yellow, Some Red, Some Yellow, Some Red],
      [Some Yellow, Some Red, Some Yellow, Some Red, Some Yellow, Some Red, Some Yellow],
      [Some Red, Some Yellow, Some Red, Some Yellow, Some Red, Some Yellow, Some Red],
      [Some Yellow, Some Red, Some Yellow, Some Red, Some Yellow, Some Red, Some Yellow],
      [Some Red, Some Yellow, Some Red, Some Yellow, Some Red, Some Yellow, Some Red],
      [Some Yellow, Some Red, Some Yellow, Some Red, Some Yellow, Some Red, Some Yellow]]"

definition fullGame :: GameState where
  "fullGame = openGame\<lparr> board := fullBoard, votes := [(''p1'', 3)] \<rparr>"

text \<open>The window of the tests' first finishVoting case: both red players vote for column 3.\<close>

definition votedGame :: GameState where
  "votedGame = openGame\<lparr> votes := [(''p1'', 3), (''p2'', 3)] \<rparr>"

text \<open>Red holds columns 0 to 3 of the bottom row.\<close>

definition bottomRowWin :: Board where
  "bottomRowWin =
     [[None, None, None, None, None, None, None],
      [None, None, None, None, None, None, None],
      [None, None, None, None, None, None, None],
      [None, None, None, None, None, None, None],
      [None, None, None, None, None, None, None],
      [Some Red, Some Red, Some Red, Some Red, None, None, None]]"

text \<open>
  The other wins of the repository's GameEngine tests: Red holds rows 2 to 5 of column
  0; Red holds the cells (0, 0), (1, 1), (2, 2), (3, 3); Red holds the cells (0, 3),
  (1, 2), (2, 1), (3, 0) (column first).
\<close>

definition verticalWin :: Board where
  "verticalWin =
     [[None, None, None, None, None, None, None],
      [None, None, None, None, None, None, None],
      [Some Red, None, None, None, None, None, None],
      [Some Red, None, None, None, None, None, None],
      [Some Red, None, None, None, None, None, None],
      [Some Red, None, None, None, None, None, None]]"

definition diagonalWin :: Board where
  "diagonalWin =
     [[Some Red, None, None, None, None, None, None],
      [None, Some Red, None, None, None, None, None],
      [None, None, Some Red, None, None, None, None],
      [None, None, None, Some Red, None, None, None],
      [None, None, None, None, None, None, None],
      [None, None, None, None, None, None, None]]"

definition antiDiagonalWin :: Board where
  "antiDiagonalWin =
     [[None, None, None, Some Red, None, None, None],
      [None, None, Some Red, None, None, None, None],
      [None, Some Red, None, None, None, None, None],
      [Some Red, None, None, None, None, None, None],
      [None, None, None, None, None, None, None],
      [None, None, None, None, None, None, None]]"

text \<open>Red holds columns 0 to 2 of the bottom row only.\<close>

definition bottomRowThree :: Board where
  "bottomRowThree =
     [[None, None, None, None, None, None, None],
      [None, None, None, None, None, None, None],
      [None, None, None, None, None, None, None],
      [None, None, None, None, None, None, None],
      [None, None, None, None, None, None, None],
      [Some Red, Some Red, Some Red, None, None, None, None]]"

text \<open>
  The board after Red's move into column 3 of a new board, and the state and roster the
  tests' first finishVoting case ends in: the window is resolved (no deadline, no votes),
  Yellow is active, the round is 2.
\<close>

definition afterFirstMove :: Board where
  "afterFirstMove =
     [[None, None, None, None, None, None, None],
      [None, None, None, None, None, None, None],
      [None, None, None, None, None, None, None],
      [None, None, None, None, None, None, None],
      [None, None, None, None, None, None, None],
      [None, None, None, Some Red, None, None, None]]"

definition resolvedGame :: GameState where
  "resolvedGame =
     \<lparr> board = afterFirstMove, currentTeam = Yellow, roundNo = 2, votes = [],
       perColumnCounts = [0, 0, 0, 2, 0, 0, 0], endsAt = None,
       lastMove = Some \<lparr> mcol = 3, mrow = 5, mteam = Red \<rparr>, result = None \<rparr>"

definition players1 :: "Player list" where
  "players1 =
     [\<lparr> pid = ''p1'', nickname = ''Player1'', pteam = Red, isAdmin = False,
        matchingVotes = 1, connected = True \<rparr>,
      \<lparr> pid = ''p2'', nickname = ''Player2'', pteam = Red, isAdmin = False,
        matchingVotes = 1, connected = True \<rparr>,
      \<lparr> pid = ''p3'', nickname = ''Player3'', pteam = Yellow, isAdmin = False,
        matchingVotes = 0, connected = True \<rparr>,
      \<lparr> pid = ''p4'', nickname = ''Player4'', pteam = Yellow, isAdmin = False,
        matchingVotes = 0, connected = True \<rparr>]"

text \<open>The board after Yellow's move into column 3 on top of it.\<close>

definition afterSecondMove :: Board where
  "afterSecondMove =
     [[None, None, None, None, None, None, None],
      [None, None, None, None, None, None, None],
      [None, None, None, None, None, None, None],
      [None, None, None, None, None, None, None],
      [None, None, None, Some Yellow, None, None, None],
      [None, None, None, Some Red, None, None, None]]"




section \<open>Applying a move\<close>

lemma findTargetRow_Some:
  assumes "findTargetRow b col n = Some row"
  shows "0 \<le> row \<and> row < int n \<and> cellAt b row col = Some None
         \<and> (\<forall>r. row < r \<and> r < int n \<longrightarrow> cellAt b r col \<noteq> Some None)"
  using assms
proof (induction n)
  case 0
  then show ?case by simp
next
  case (Suc n)
  show ?case
  proof (cases "cellAt b (int n) col = Some None")
    case True
    with Suc.prems have "row = int n" by simp
    with True show ?thesis by auto
  next
    case False
    with Suc.prems have "findTargetRow b col n = Some row" by simp
    from Suc.IH[OF this] have ih: "0 \<le> row" "row < int n" "cellAt b row col = Some None"
      "\<forall>r. row < r \<and> r < int n \<longrightarrow> cellAt b r col \<noteq> Some None" by auto
    have "cellAt b r col \<noteq> Some None" if "row < r" "r < int (Suc n)" for r
    proof (cases "r = int n")
      case True
      with False show ?thesis by simp
    next
      case False
      with that ih(4) show ?thesis by auto
    qed
    with ih show ?thesis by auto
  qed
qed

lemma findTargetRow_found:
  assumes "cellAt b r col = Some None" "0 \<le> r" "r < int n"
  shows "\<exists>row. findTargetRow b col n = Some row"
  using assms
proof (induction n)
  case 0
  then show ?case by simp
next
  case (Suc n)
  show ?case
  proof (cases "cellAt b (int n) col = Some None")
    case True
    then show ?thesis by simp
  next
    case False
    with Suc.prems have "r \<noteq> int n" by auto
    with Suc.prems have "r < int n" by simp
    from Suc.IH[OF Suc.prems(1,2) this] False show ?thesis by simp
  qed
qed

lemma isValidMove_target:
  assumes "isValidMove b col"
  shows "\<exists>row. findTargetRow b col 6 = Some row"
proof -
  have "cellAt b 0 col = Some None"
    using assms by (simp add: isValidMove_def split: if_splits)
  from findTargetRow_found[OF this, of 6] show ?thesis by simp
qed

lemma isValidMove_range: "isValidMove b col \<Longrightarrow> 0 \<le> col \<and> col < 7"
  by (simp add: isValidMove_def split: if_splits)

lemma applyMove_invalid: "\<not> isValidMove b col \<Longrightarrow> applyMove b col team = Inl (InvalidMove col)"
  by (simp add: applyMove_def)

lemma applyMove_valid:
  assumes "isValidMove b col"
  shows "\<exists>row. findTargetRow b col 6 = Some row
           \<and> applyMove b col team
               = Inr (b[nat row := (b ! nat row)[nat col := Some team]], row)"
proof -
  from isValidMove_target[OF assms] obtain row where "findTargetRow b col 6 = Some row" ..
  then show ?thesis using assms by (simp add: applyMove_def)
qed

lemma cellAt_defined:
  assumes "cellAt b row col = Some v"
  shows "0 \<le> row \<and> nat row < length b \<and> 0 \<le> col \<and> nat col < length (b ! nat row)
         \<and> b ! nat row ! nat col = v \<and> row < int (length b)
         \<and> col < int (length (b ! nat row))"
  using assms by (auto simp: cellAt_def split: if_splits)

lemma cellAt_update:
  assumes "cellAt b row col = Some v"
  shows "cellAt (b[nat row := (b ! nat row)[nat col := w]]) r c
           = (if r = row \<and> c = col then Some w else cellAt b r c)"
proof -
  note d = cellAt_defined[OF assms]
  show ?thesis
  proof (cases "0 \<le> r \<and> r < int (length b)")
    case False
    then show ?thesis using d by (auto simp: cellAt_def)
  next
    case True
    show ?thesis
    proof (cases "r = row")
      case False
      with True have "nat r \<noteq> nat row" using d by auto
      then show ?thesis using False by (simp add: cellAt_def)
    next
      case r: True
      show ?thesis
      proof (cases "c = col")
        case True
        with r d show ?thesis by (simp add: cellAt_def)
      next
        case False
        then have "0 \<le> c \<Longrightarrow> nat c \<noteq> nat col" using d by auto
        with r d False show ?thesis by (auto simp: cellAt_def)
      qed
    qed
  qed
qed

lemma readBoard_copyRows:
  "readBoard (h @ map (\<lambda>a. h ! a) brd) [length h ..< length h + length brd] = readBoard h brd"
  by (rule nth_equalityI) (simp_all add: readBoard_def nth_append)

lemma readBoard_old:
  assumes "\<forall>a \<in> set brd. a < length h" "length h \<le> a"
  shows "readBoard ((h @ ys)[a := x]) brd = readBoard h brd"
  unfolding readBoard_def
proof (rule map_cong[OF refl])
  fix a' assume "a' \<in> set brd"
  with assms have "a' < length h" "a' \<noteq> a" by auto
  then show "(h @ ys)[a := x] ! a' = h ! a'" by (simp add: nth_append)
qed

lemma readBoard_write:
  assumes "i < n" "length h1 = k + n"
  shows "readBoard (h1[k + i := x]) [k ..< k + n] = (readBoard h1 [k ..< k + n])[i := x]"
  using assms by (intro nth_equalityI) (auto simp: readBoard_def nth_list_update)

lemma applyMoveStore_valid:
  assumes "isValidMove (readBoard h brd) col"
    and "findTargetRow (readBoard h brd) col 6 = Some row"
  shows "applyMoveStore h brd col team =
           Inr ((h @ map (\<lambda>a. h ! a) brd)
                  [length h + nat row := (readBoard h brd ! nat row)[nat col := Some team]],
                [length h ..< length h + length brd], row)"
proof -
  from findTargetRow_Some[OF assms(2)] have "cellAt (readBoard h brd) row col = Some None"
    by simp
  from cellAt_defined[OF this] have r: "0 \<le> row" "nat row < length brd"
    by (simp_all add: readBoard_def)
  then have "[length h ..< length h + length brd] ! nat row = length h + nat row" by simp
  moreover have "(h @ map (\<lambda>a. h ! a) brd) ! (length h + nat row) = readBoard h brd ! nat row"
    using r by (simp add: readBoard_def nth_append)
  ultimately show ?thesis
    using assms by (simp add: applyMoveStore_def copyRows_def readBoard_copyRows Let_def)
qed

lemma applyMove_Inr:
  assumes "applyMove b col team = Inr (b', row)"
  shows "isValidMove b col \<and> findTargetRow b col 6 = Some row
         \<and> b' = b[nat row := (b ! nat row)[nat col := Some team]]"
proof -
  have v: "isValidMove b col"
    using assms applyMove_invalid[of b col team] by auto
  from applyMove_valid[OF v, of team] assms show ?thesis using v by auto
qed

lemma applyMove_cells:
  assumes "applyMove b col team = Inr (b', row)"
  shows "cellAt b' r c = (if r = row \<and> c = col then Some (Some team) else cellAt b r c)"
proof -
  from applyMove_Inr[OF assms] have f: "findTargetRow b col 6 = Some row"
    and b': "b' = b[nat row := (b ! nat row)[nat col := Some team]]" by simp_all
  from findTargetRow_Some[OF f] have "cellAt b row col = Some None" by simp
  from cellAt_update[OF this] b' show ?thesis by simp
qed

lemma applyMove_above:
  assumes "applyMove b col team = Inr (b', row)"
    and "applyMove b' col team2 = Inr (b2, row2)"
  shows "row2 < row"
proof (rule ccontr)
  assume "\<not> row2 < row"
  then have ge: "row \<le> row2" by simp
  from applyMove_Inr[OF assms(1)] have f: "findTargetRow b col 6 = Some row" by simp
  from applyMove_Inr[OF assms(2)] have f2: "findTargetRow b' col 6 = Some row2" by simp
  from findTargetRow_Some[OF f2] have e: "cellAt b' row2 col = Some None" "row2 < 6" by simp_all
  show False
  proof (cases "row2 = row")
    case True
    with e applyMove_cells[OF assms(1), of row col] show False by simp
  next
    case False
    with ge have "row < row2" by simp
    with findTargetRow_Some[OF f] e have "cellAt b row2 col \<noteq> Some None" by simp
    with False e applyMove_cells[OF assms(1), of row2 col] show False by simp
  qed
qed

lemma applyMove_stack:
  assumes "applyMove b col team = Inr (b', row)"
    and "0 < row" and "cellAt b (row - 1) col = Some None"
  shows "\<exists>b2. applyMove b' col team2 = Inr (b2, row - 1)"
proof -
  from applyMove_Inr[OF assms(1)] have v: "isValidMove b col" by simp
  then have "cellAt b 0 col = Some None" by (simp add: isValidMove_def split: if_splits)
  with assms(2) applyMove_cells[OF assms(1), of 0 col] have "cellAt b' 0 col = Some None"
    by simp
  with isValidMove_range[OF v] have v': "isValidMove b' col" by (simp add: isValidMove_def)
  from applyMove_valid[OF this, of team2] obtain row2 b2 where
    f2: "findTargetRow b' col 6 = Some row2" and a2: "applyMove b' col team2 = Inr (b2, row2)"
    by blast
  from applyMove_above[OF assms(1) a2] have lt: "row2 < row" .
  from applyMove_Inr[OF assms(1)] have "findTargetRow b col 6 = Some row" by simp
  from findTargetRow_Some[OF this] have "row < 6" by simp
  have "cellAt b' (row - 1) col = Some None"
    using assms(3) applyMove_cells[OF assms(1), of "row - 1" col] by simp
  with findTargetRow_Some[OF f2] \<open>row < 6\<close> have "\<not> row2 < row - 1" by auto
  with lt have "row2 = row - 1" by simp
  with a2 show ?thesis by blast
qed

lemma applyMove_bottom:
  assumes "applyMove b col team = Inr (b', row)" and "cellAt b 5 col = Some None"
  shows "row = 5"
proof -
  from applyMove_Inr[OF assms(1)] have "findTargetRow b col 6 = Some row" by simp
  from findTargetRow_Some[OF this] assms(2) have "row < 6" "\<not> row < 5" by auto
  then show ?thesis by simp
qed

lemma applyMove_teamAt:
  assumes "applyMove b col team = Inr (b', row)"
  shows "teamAt b' team col row"
proof -
  from applyMove_Inr[OF assms] have v: "isValidMove b col"
    and f: "findTargetRow b col 6 = Some row" by simp_all
  from findTargetRow_Some[OF f] have "0 \<le> row" "row < 6" by simp_all
  moreover from isValidMove_range[OF v] have "0 \<le> col" "col < 7" by simp_all
  moreover from applyMove_cells[OF assms, of row col]
  have "cellAt b' row col = Some (Some team)" by simp
  ultimately show ?thesis by (simp add: teamAt_def)
qed

text \<open>
  Claim C5. For a board whose rows are arrays of the store: \<^verbatim>\<open>applyMove\<close> fails, with the
  invalid-move error, exactly when \<^verbatim>\<open>isValidMove\<close> is false. Otherwise it returns the
  lowest empty row of the column (the cell is empty and no cell below it within the six
  rows is) and a new board that holds the team at that cell and agrees with the input at
  every other cell. The input board reads the same after the call, every array of the
  store as it was before the call is unchanged, and the rows of the new board are fresh,
  pairwise distinct arrays: the result shares no row with the input. Moves into one
  column stack upward: the row is 5 when the bottom cell is empty, a further move into
  the column lands above this one, and directly above it when that cell is empty.
\<close>

theorem applyMove_spec:
  assumes "\<forall>a \<in> set brd. a < length h"
  shows "(\<not> isValidMove (readBoard h brd) col \<longrightarrow>
            applyMoveStore h brd col team = Inl (InvalidMove col)
            \<and> applyMove (readBoard h brd) col team = Inl (InvalidMove col))
    \<and> (isValidMove (readBoard h brd) col \<longrightarrow>
         (\<exists>h' brd' row.
            applyMoveStore h brd col team = Inr (h', brd', row)
            \<and> applyMove (readBoard h brd) col team = Inr (readBoard h' brd', row)
            \<and> 0 \<le> row \<and> row < 6
            \<and> cellAt (readBoard h brd) row col = Some None
            \<and> (\<forall>r. row < r \<and> r < 6 \<longrightarrow> cellAt (readBoard h brd) r col \<noteq> Some None)
            \<and> readBoard h' brd'
                = (readBoard h brd)
                    [nat row := (readBoard h brd ! nat row)[nat col := Some team]]
            \<and> (\<forall>r c. cellAt (readBoard h' brd') r c
                  = (if r = row \<and> c = col then Some (Some team)
                     else cellAt (readBoard h brd) r c))
            \<and> readBoard h' brd = readBoard h brd
            \<and> take (length h) h' = h
            \<and> (\<forall>a \<in> set brd'. length h \<le> a) \<and> distinct brd'
            \<and> (cellAt (readBoard h brd) 5 col = Some None \<longrightarrow> row = 5)
            \<and> (\<forall>team2 b2 row2.
                  applyMove (readBoard h' brd') col team2 = Inr (b2, row2) \<longrightarrow> row2 < row)
            \<and> (\<forall>team2. 0 < row \<and> cellAt (readBoard h brd) (row - 1) col = Some None \<longrightarrow>
                  (\<exists>b2. applyMove (readBoard h' brd') col team2 = Inr (b2, row - 1)))))"
proof (intro conjI impI)
  assume "\<not> isValidMove (readBoard h brd) col"
  then show "applyMoveStore h brd col team = Inl (InvalidMove col)"
    and "applyMove (readBoard h brd) col team = Inl (InvalidMove col)"
    by (simp_all add: applyMoveStore_def applyMove_def)
next
  let ?B = "readBoard h brd"
  assume v: "isValidMove ?B col"
  from applyMove_valid[OF v, of team] obtain row where
    f: "findTargetRow ?B col 6 = Some row"
    and a: "applyMove ?B col team = Inr (?B[nat row := (?B ! nat row)[nat col := Some team]], row)"
    by blast
  let ?B' = "?B[nat row := (?B ! nat row)[nat col := Some team]]"
  let ?h1 = "h @ map (\<lambda>a. h ! a) brd"
  let ?h' = "?h1[length h + nat row := (?B ! nat row)[nat col := Some team]]"
  let ?brd' = "[length h ..< length h + length brd]"
  note t = findTargetRow_Some[OF f]
  from t have e: "cellAt ?B row col = Some None" by simp
  from cellAt_defined[OF e] have r: "nat row < length brd" by (simp add: readBoard_def)
  have s: "applyMoveStore h brd col team = Inr (?h', ?brd', row)"
    using v f by (rule applyMoveStore_valid)
  have rb: "readBoard ?h' ?brd' = ?B'"
    using readBoard_write[OF r, of ?h1 "length h"] by (simp add: readBoard_copyRows)
  have old: "readBoard ?h' brd = ?B"
    using assms by (intro readBoard_old) simp_all
  have tk: "take (length h) ?h' = h" by simp
  have fresh: "\<forall>a \<in> set ?brd'. length h \<le> a" "distinct ?brd'" by simp_all
  have cells: "\<forall>r c. cellAt (readBoard ?h' ?brd') r c
                  = (if r = row \<and> c = col then Some (Some team) else cellAt ?B r c)"
    using applyMove_cells[OF a] rb by simp
  have above: "\<forall>team2 b2 row2.
      applyMove (readBoard ?h' ?brd') col team2 = Inr (b2, row2) \<longrightarrow> row2 < row"
    using applyMove_above[OF a] rb by simp
  have stack: "\<forall>team2. 0 < row \<and> cellAt ?B (row - 1) col = Some None \<longrightarrow>
      (\<exists>b2. applyMove (readBoard ?h' ?brd') col team2 = Inr (b2, row - 1))"
    using applyMove_stack[OF a] rb by simp
  have bottom: "cellAt ?B 5 col = Some None \<longrightarrow> row = 5"
    using applyMove_bottom[OF a] by simp
  have a': "applyMove ?B col team = Inr (readBoard ?h' ?brd', row)"
    using a rb by simp
  have t': "0 \<le> row" "row < 6" "\<forall>r. row < r \<and> r < 6 \<longrightarrow> cellAt ?B r col \<noteq> Some None"
    using t by simp_all
  show "\<exists>h' brd' row.
            applyMoveStore h brd col team = Inr (h', brd', row)
            \<and> applyMove ?B col team = Inr (readBoard h' brd', row)
            \<and> 0 \<le> row \<and> row < 6
            \<and> cellAt ?B row col = Some None
            \<and> (\<forall>r. row < r \<and> r < 6 \<longrightarrow> cellAt ?B r col \<noteq> Some None)
            \<and> readBoard h' brd' = ?B[nat row := (?B ! nat row)[nat col := Some team]]
            \<and> (\<forall>r c. cellAt (readBoard h' brd') r c
                  = (if r = row \<and> c = col then Some (Some team) else cellAt ?B r c))
            \<and> readBoard h' brd = ?B
            \<and> take (length h) h' = h
            \<and> (\<forall>a \<in> set brd'. length h \<le> a) \<and> distinct brd'
            \<and> (cellAt ?B 5 col = Some None \<longrightarrow> row = 5)
            \<and> (\<forall>team2 b2 row2.
                  applyMove (readBoard h' brd') col team2 = Inr (b2, row2) \<longrightarrow> row2 < row)
            \<and> (\<forall>team2. 0 < row \<and> cellAt ?B (row - 1) col = Some None \<longrightarrow>
                  (\<exists>b2. applyMove (readBoard h' brd') col team2 = Inr (b2, row - 1)))"
    apply (rule exI[of _ ?h'], rule exI[of _ ?brd'], rule exI[of _ row])
    apply (intro conjI)
    apply (rule s a' t' e rb cells old tk fresh bottom above stack)+
    done
qed

lemma readBoard_empty: "readBoard emptyStore emptyRef = newBoard"
  by (simp add: readBoard_def emptyStore_def emptyRef_def newBoard_def eval_nat_numeral)

text \<open>
  On a new board: column 7 is refused; a move into column 3 lands on row 5, leaves the
  input board as it was, and the next move into column 3 lands on row 4.
\<close>

theorem applyMove_spec_witness:
  "isValidMove (readBoard emptyStore emptyRef) 3
   \<and> \<not> isValidMove (readBoard emptyStore emptyRef) 7
   \<and> applyMoveStore emptyStore emptyRef 7 Red = Inl (InvalidMove 7)
   \<and> (\<exists>h' brd'.
         applyMoveStore emptyStore emptyRef 3 Red = Inr (h', brd', 5)
         \<and> applyMove newBoard 3 Red = Inr (readBoard h' brd', 5)
         \<and> cellAt (readBoard h' brd') 5 3 = Some (Some Red)
         \<and> readBoard h' emptyRef = newBoard
         \<and> (\<exists>b2. applyMove (readBoard h' brd') 3 Yellow = Inr (b2, 4)))"
proof -
  have hyp: "\<forall>a \<in> set emptyRef. a < length emptyStore"
    by (simp add: emptyRef_def emptyStore_def)
  have v3: "isValidMove (readBoard emptyStore emptyRef) 3"
    and v7: "\<not> isValidMove (readBoard emptyStore emptyRef) 7"
    and c5: "cellAt (readBoard emptyStore emptyRef) 5 3 = Some None"
    and c4: "cellAt (readBoard emptyStore emptyRef) (5 - 1) 3 = Some None"
    by (simp_all add: readBoard_empty isValidMove_def cellAt_def newBoard_def)
  from applyMove_spec[OF hyp, of 7 Red] v7
  have 1: "applyMoveStore emptyStore emptyRef 7 Red = Inl (InvalidMove 7)" by blast
  from applyMove_spec[OF hyp, of 3 Red] v3 obtain h' brd' row where
    s: "applyMoveStore emptyStore emptyRef 3 Red = Inr (h', brd', row)"
    and a: "applyMove (readBoard emptyStore emptyRef) 3 Red = Inr (readBoard h' brd', row)"
    and cells: "\<forall>r c. cellAt (readBoard h' brd') r c
                  = (if r = row \<and> c = 3 then Some (Some Red)
                     else cellAt (readBoard emptyStore emptyRef) r c)"
    and old: "readBoard h' emptyRef = readBoard emptyStore emptyRef"
    and bottom: "cellAt (readBoard emptyStore emptyRef) 5 3 = Some None \<longrightarrow> row = 5"
    and stack: "\<forall>team2. 0 < row
                  \<and> cellAt (readBoard emptyStore emptyRef) (row - 1) 3 = Some None \<longrightarrow>
                  (\<exists>b2. applyMove (readBoard h' brd') 3 team2 = Inr (b2, row - 1))"
    by blast
  from bottom c5 have row: "row = 5" by simp
  from stack row c4 have "\<exists>b2. applyMove (readBoard h' brd') 3 Yellow = Inr (b2, 4)"
    by simp
  moreover from cells row have "cellAt (readBoard h' brd') 5 3 = Some (Some Red)" by simp
  ultimately show ?thesis
    using v3 v7 1 s a old row by (auto simp: readBoard_empty)
qed

section \<open>Detecting a win\<close>

lemma teamAt_holdsTeam: "teamAt b t col row \<longleftrightarrow> holdsTeam b t col row"
  by (auto simp: teamAt_def holdsTeam_def cellAt_def)

lemma fourInARow_directions:
  "fourInARow b t col row \<longleftrightarrow> (\<exists>d \<in> set directions. fourThrough b t col row d)"
  by (simp add: fourInARow_def directions_def)

lemma walkBackward_steps:
  assumes "\<forall>i<n. teamAt b t (col - int i * dc) (row - int i * dr)"
    and "\<not> teamAt b t (col - int n * dc) (row - int n * dr)"
  shows "walkBackward b t dc dr col row = Some (col - int n * dc, row - int n * dr)"
  using assms
proof (induction n arbitrary: col row)
  case 0
  then show ?case by (subst walkBackward.simps) simp
next
  case (Suc n)
  from Suc.prems(1) have here: "teamAt b t col row" by force
  have "\<forall>i<n. teamAt b t (col - dc - int i * dc) (row - dr - int i * dr)"
  proof (intro allI impI)
    fix i assume "i < n"
    then have "teamAt b t (col - int (Suc i) * dc) (row - int (Suc i) * dr)"
      using Suc.prems(1)[rule_format, of "Suc i"] by simp
    then show "teamAt b t (col - dc - int i * dc) (row - dr - int i * dr)"
      by (simp add: algebra_simps)
  qed
  moreover have "\<not> teamAt b t (col - dc - int n * dc) (row - dr - int n * dr)"
    using Suc.prems(2) by (simp add: algebra_simps)
  ultimately have "walkBackward b t dc dr (col - dc) (row - dr)
      = Some (col - dc - int n * dc, row - dr - int n * dr)"
    by (rule Suc.IH)
  then show ?case
    using here by (subst walkBackward.simps) (simp add: algebra_simps)
qed

lemma walkForward_steps:
  assumes "\<forall>i<n. teamAt b t (col + int i * dc) (row + int i * dr)"
    and "\<not> teamAt b t (col + int n * dc) (row + int n * dr)"
  shows "walkForward b t dc dr col row line
           = Some (line @ map (\<lambda>i. (col + int i * dc, row + int i * dr)) [0 ..< n])"
  using assms
proof (induction n arbitrary: col row line)
  case 0
  then show ?case by (subst walkForward.simps) simp
next
  case (Suc n)
  from Suc.prems(1) have here: "teamAt b t col row" by force
  have "\<forall>i<n. teamAt b t (col + dc + int i * dc) (row + dr + int i * dr)"
  proof (intro allI impI)
    fix i assume "i < n"
    then have "teamAt b t (col + int (Suc i) * dc) (row + int (Suc i) * dr)"
      using Suc.prems(1)[rule_format, of "Suc i"] by simp
    then show "teamAt b t (col + dc + int i * dc) (row + dr + int i * dr)"
      by (simp add: algebra_simps)
  qed
  moreover have "\<not> teamAt b t (col + dc + int n * dc) (row + dr + int n * dr)"
    using Suc.prems(2) by (simp add: algebra_simps)
  ultimately have "walkForward b t dc dr (col + dc) (row + dr) (line @ [(col, row)])
      = Some ((line @ [(col, row)])
               @ map (\<lambda>i. (col + dc + int i * dc, row + dr + int i * dr)) [0 ..< n])"
    by (rule Suc.IH)
  moreover have "map (\<lambda>i. (col + int i * dc, row + int i * dr)) [0 ..< Suc n]
      = (col, row) # map (\<lambda>i. (col + dc + int i * dc, row + dr + int i * dr)) [0 ..< n]"
    by (simp only: upt_conv_Cons[of 0 "Suc n"] map_Suc_upt[symmetric] list.map map_map)
       (simp add: comp_def algebra_simps)
  ultimately show ?case
    using here by (subst walkForward.simps) simp
qed

lemma off_grid:
  assumes "dc \<noteq> 0 \<or> dr \<noteq> 0" and "teamAt b t col row"
  shows "\<not> teamAt b t (col + 7 * dc) (row + 7 * dr)"
proof -
  from assms(2) have g: "0 \<le> col" "col < 7" "0 \<le> row" "row < 6" by (simp_all add: teamAt_def)
  from assms(1) show ?thesis
  proof
    assume "dc \<noteq> 0"
    then have "dc \<le> -1 \<or> 1 \<le> dc" by linarith
    with g have "col + 7 * dc < 0 \<or> 7 \<le> col + 7 * dc" by linarith
    then show ?thesis by (auto simp: teamAt_def)
  next
    assume "dr \<noteq> 0"
    then have "dr \<le> -1 \<or> 1 \<le> dr" by linarith
    with g have "row + 7 * dr < 0 \<or> 6 \<le> row + 7 * dr" by linarith
    then show ?thesis by (auto simp: teamAt_def)
  qed
qed

lemma first_gap:
  assumes "dc \<noteq> 0 \<or> dr \<noteq> 0"
  obtains n where "\<forall>i<n. teamAt b t (col + int i * dc) (row + int i * dr)"
    and "\<not> teamAt b t (col + int n * dc) (row + int n * dr)"
proof -
  let ?P = "\<lambda>n. \<not> teamAt b t (col + int n * dc) (row + int n * dr)"
  have "\<exists>n. ?P n"
  proof (cases "teamAt b t col row")
    case True
    from off_grid[OF assms this] have "?P 7" by simp
    then show ?thesis ..
  next
    case False
    then have "?P 0" by simp
    then show ?thesis ..
  qed
  then have "?P (LEAST n. ?P n)" by (rule LeastI_ex)
  moreover have "\<forall>i < (LEAST n. ?P n). teamAt b t (col + int i * dc) (row + int i * dr)"
    using not_less_Least by blast
  ultimately show ?thesis using that by blast
qed

lemma checkDirection_run:
  assumes "teamAt b t col row" and "dc \<noteq> 0 \<or> dr \<noteq> 0"
  obtains a n where
    "checkDirection b col row t dc dr
       = Some (map (\<lambda>i. (col + (int i - int a) * dc, row + (int i - int a) * dr))
                 [0 ..< a + n])"
    and "0 < n"
    and "\<forall>k. - int a \<le> k \<and> k < int n \<longrightarrow> teamAt b t (col + k * dc) (row + k * dr)"
    and "\<not> teamAt b t (col - (int a + 1) * dc) (row - (int a + 1) * dr)"
    and "\<not> teamAt b t (col + int n * dc) (row + int n * dr)"
proof -
  from assms(2) have "- dc \<noteq> 0 \<or> - dr \<noteq> 0" by simp
  from first_gap[OF this, of b t col row] obtain m where
    bk0: "\<forall>i<m. teamAt b t (col + int i * - dc) (row + int i * - dr)"
    and bend0: "\<not> teamAt b t (col + int m * - dc) (row + int m * - dr)"
    by blast
  from bk0 have bk: "\<forall>i<m. teamAt b t (col - int i * dc) (row - int i * dr)" by simp
  from bend0 have bend: "\<not> teamAt b t (col - int m * dc) (row - int m * dr)" by simp
  from first_gap[OF assms(2), of b t col row] obtain n where
    fwd: "\<forall>i<n. teamAt b t (col + int i * dc) (row + int i * dr)"
    and fend: "\<not> teamAt b t (col + int n * dc) (row + int n * dr)"
    by blast
  have m: "0 < m" using bend assms(1) by (cases m) auto
  have n: "0 < n" using fend assms(1) by (cases n) auto
  define a where "a = m - 1"
  have ma: "int m = int a + 1" using m by (simp add: a_def)
  have run: "teamAt b t (col + k * dc) (row + k * dr)" if "- int a \<le> k" "k < int n" for k
  proof (cases "k \<le> 0")
    case True
    with that ma have "nat (- k) < m" by linarith
    from bk[rule_format, OF this] True show ?thesis by simp
  next
    case False
    with that have "nat k < n" by linarith
    from fwd[rule_format, OF this] False show ?thesis by simp
  qed
  have wb: "walkBackward b t dc dr col row = Some (col - int m * dc, row - int m * dr)"
    using bk bend by (rule walkBackward_steps)
  let ?sc = "col - int m * dc + dc" and ?sr = "row - int m * dr + dr"
  have "\<forall>i<a + n. teamAt b t (?sc + int i * dc) (?sr + int i * dr)"
  proof (intro allI impI)
    fix i assume "i < a + n"
    then have "- int a \<le> int i - int a" "int i - int a < int n" by simp_all
    from run[OF this] show "teamAt b t (?sc + int i * dc) (?sr + int i * dr)"
      by (simp add: ma algebra_simps)
  qed
  moreover have "\<not> teamAt b t (?sc + int (a + n) * dc) (?sr + int (a + n) * dr)"
    using fend by (simp add: ma algebra_simps)
  ultimately have "walkForward b t dc dr ?sc ?sr []
      = Some ([] @ map (\<lambda>i. (?sc + int i * dc, ?sr + int i * dr)) [0 ..< a + n])"
    by (rule walkForward_steps)
  moreover have "(\<lambda>i. (?sc + int i * dc, ?sr + int i * dr))
      = (\<lambda>i. (col + (int i - int a) * dc, row + (int i - int a) * dr))"
    by (rule ext) (simp add: ma algebra_simps)
  ultimately have cd: "checkDirection b col row t dc dr
       = Some (map (\<lambda>i. (col + (int i - int a) * dc, row + (int i - int a) * dr))
                 [0 ..< a + n])"
    using wb by (simp add: checkDirection_def)
  have be: "\<not> teamAt b t (col - (int a + 1) * dc) (row - (int a + 1) * dr)"
    using bend by (simp add: ma)
  have run': "\<forall>k. - int a \<le> k \<and> k < int n \<longrightarrow> teamAt b t (col + k * dc) (row + k * dr)"
    using run by blast
  from that[OF cd n run' be fend] show ?thesis .
qed

lemma in_0123: "(x::int) \<in> set [0, 1, 2, 3] \<longleftrightarrow> 0 \<le> x \<and> x \<le> 3"
  by (simp; presburger)

lemma window_iff_run:
  fixes P :: "int \<Rightarrow> bool" and a n :: nat
  assumes run: "\<forall>k. - int a \<le> k \<and> k < int n \<longrightarrow> P k"
    and bend: "\<not> P (- (int a + 1))" and fend: "\<not> P (int n)" and n: "0 < n"
  shows "(\<exists>j \<in> set [0, 1, 2, 3]. \<forall>i \<in> set [0, 1, 2, 3]. P (i - j)) \<longleftrightarrow> 4 \<le> a + n"
proof
  assume "\<exists>j \<in> set [0, 1, 2, 3]. \<forall>i \<in> set [0, 1, 2, 3]. P (i - j)"
  then obtain j :: int where jm: "j \<in> set [0, 1, 2, 3]"
    and wm: "\<forall>i \<in> set [0, 1, 2, 3]. P (i - j)" ..
  from jm have j: "0 \<le> j" "j \<le> 3" unfolding in_0123 by simp_all
  have w: "P (i - j)" if "0 \<le> i" "i \<le> 3" for i
  proof -
    from that have "i \<in> set [0, 1, 2, 3]" unfolding in_0123 by simp
    with wm show ?thesis ..
  qed
  have "j \<le> int a"
  proof (rule ccontr)
    assume "\<not> j \<le> int a"
    then have "0 \<le> j - (int a + 1)" "j - (int a + 1) \<le> 3" using j by simp_all
    from w[OF this] bend show False by simp
  qed
  moreover have "3 - j < int n"
  proof (rule ccontr)
    assume "\<not> 3 - j < int n"
    then have "0 \<le> j + int n" "j + int n \<le> 3" using j by simp_all
    from w[OF this] fend show False by simp
  qed
  ultimately show "4 \<le> a + n" by linarith
next
  assume len: "4 \<le> a + n"
  define j where "j = min (int a) 3"
  have j: "0 \<le> j" "j \<le> 3" "j \<le> int a" by (simp_all add: j_def)
  have w: "P (i - j)" if "0 \<le> i" "i \<le> 3" for i
  proof -
    have "- int a \<le> i - j" using that j by linarith
    moreover have "i - j < int n" using that len n by (simp add: j_def min_def)
    ultimately show ?thesis using run by blast
  qed
  have "\<forall>i \<in> set [0, 1, 2, 3]. P (i - j)"
  proof
    fix i :: int
    assume "i \<in> set [0, 1, 2, 3]"
    then have "0 \<le> i" "i \<le> 3" unfolding in_0123 by simp_all
    then show "P (i - j)" by (rule w)
  qed
  moreover have "j \<in> set [0, 1, 2, 3]" unfolding in_0123 using j by simp
  ultimately show "\<exists>j \<in> set [0, 1, 2, 3]. \<forall>i \<in> set [0, 1, 2, 3]. P (i - j)"
    by (rule bexI)
qed

lemma checkDirection_four:
  assumes "teamAt b t col row" and "dc \<noteq> 0 \<or> dr \<noteq> 0"
  obtains a line where
    "checkDirection b col row t dc dr = Some line"
    and "4 \<le> length line \<longleftrightarrow> fourThrough b t col row (dc, dr)"
    and "4 \<le> length line \<Longrightarrow>
           take 4 line
             = map (\<lambda>i. (col + (int i - int a) * dc, row + (int i - int a) * dr)) [0 ..< 4]"
    and "\<forall>i\<le>a. teamAt b t (col - int i * dc) (row - int i * dr)"
    and "\<not> teamAt b t (col - (int a + 1) * dc) (row - (int a + 1) * dr)"
proof -
  from checkDirection_run[OF assms] obtain a n where
    cd: "checkDirection b col row t dc dr
       = Some (map (\<lambda>i. (col + (int i - int a) * dc, row + (int i - int a) * dr))
                 [0 ..< a + n])"
    and n: "0 < n"
    and run: "\<forall>k. - int a \<le> k \<and> k < int n \<longrightarrow> teamAt b t (col + k * dc) (row + k * dr)"
    and bend: "\<not> teamAt b t (col - (int a + 1) * dc) (row - (int a + 1) * dr)"
    and fend: "\<not> teamAt b t (col + int n * dc) (row + int n * dr)"
    by blast
  let ?f = "\<lambda>i. (col + (int i - int a) * dc, row + (int i - int a) * dr)"
  let ?line = "map ?f [0 ..< a + n]"
  let ?P = "\<lambda>k. teamAt b t (col + k * dc) (row + k * dr)"
  have bend': "\<not> ?P (- (int a + 1))" using bend by (simp add: algebra_simps)
  have "fourThrough b t col row (dc, dr) \<longleftrightarrow> 4 \<le> a + n"
    unfolding fourThrough_def prod.case teamAt_holdsTeam[symmetric]
    using run bend' fend n by (rule window_iff_run)
  then have 1: "4 \<le> length ?line \<longleftrightarrow> fourThrough b t col row (dc, dr)" by simp
  have 2: "take 4 ?line = map ?f [0 ..< 4]" if "4 \<le> length ?line"
    using that by (simp add: take_map)
  have 3: "\<forall>i\<le>a. teamAt b t (col - int i * dc) (row - int i * dr)"
  proof (intro allI impI)
    fix i assume "i \<le> a"
    then have "- int a \<le> - int i \<and> - int i < int n" using n by simp
    with run have "?P (- int i)" by blast
    then show "teamAt b t (col - int i * dc) (row - int i * dr)" by simp
  qed
  from that[OF cd 1 2 3 bend] show ?thesis .
qed

lemma checkWinLoop_char:
  assumes "teamAt b t col row" and "\<forall>d \<in> set ds. fst d \<noteq> 0 \<or> snd d \<noteq> 0"
  shows "case find (fourThrough b t col row) ds of
           None \<Rightarrow> checkWinLoop b col row t ds = Some \<lparr> winner = None, winningLine = None \<rparr>
         | Some (dc, dr) \<Rightarrow>
             \<exists>a. (\<forall>i\<le>a. teamAt b t (col - int i * dc) (row - int i * dr))
                \<and> \<not> teamAt b t (col - (int a + 1) * dc) (row - (int a + 1) * dr)
                \<and> checkWinLoop b col row t ds
                    = Some \<lparr> winner = Some t,
                             winningLine = Some (map (\<lambda>i. (col + (int i - int a) * dc,
                                                            row + (int i - int a) * dr))
                                                   [0 ..< 4]) \<rparr>"
  using assms(2)
proof (induction ds)
  case Nil
  then show ?case by simp
next
  case (Cons d ds)
  obtain dc dr where d: "d = (dc, dr)" by (cases d)
  with Cons.prems have nz: "dc \<noteq> 0 \<or> dr \<noteq> 0" by simp
  from Cons.prems have rest: "\<forall>d \<in> set ds. fst d \<noteq> 0 \<or> snd d \<noteq> 0" by simp
  from checkDirection_four[OF assms(1) nz] obtain a line where
    cd: "checkDirection b col row t dc dr = Some line"
    and four: "4 \<le> length line \<longleftrightarrow> fourThrough b t col row (dc, dr)"
    and tk: "4 \<le> length line \<Longrightarrow>
           take 4 line
             = map (\<lambda>i. (col + (int i - int a) * dc, row + (int i - int a) * dr)) [0 ..< 4]"
    and run: "\<forall>i\<le>a. teamAt b t (col - int i * dc) (row - int i * dr)"
    and bend: "\<not> teamAt b t (col - (int a + 1) * dc) (row - (int a + 1) * dr)"
    by blast
  show ?case
  proof (cases "fourThrough b t col row (dc, dr)")
    case True
    with four have len: "4 \<le> length line" by simp
    have "checkWinLoop b col row t (d # ds)
        = Some \<lparr> winner = Some t,
                 winningLine = Some (map (\<lambda>i. (col + (int i - int a) * dc,
                                                row + (int i - int a) * dr)) [0 ..< 4]) \<rparr>"
      using cd len tk[OF len] by (simp add: d)
    with run bend True show ?thesis unfolding d by auto
  next
    case False
    with four have "\<not> 4 \<le> length line" by simp
    then have e1: "checkWinLoop b col row t (d # ds) = checkWinLoop b col row t ds"
      using cd by (simp add: d)
    have e2: "find (fourThrough b t col row) (d # ds) = find (fourThrough b t col row) ds"
      using False by (simp add: d)
    from Cons.IH[OF rest] show ?thesis unfolding e1 e2 .
  qed
qed

lemma directions_nonzero: "\<forall>d \<in> set directions. fst d \<noteq> 0 \<or> snd d \<noteq> 0"
  by (simp add: directions_def)

lemma checkWin_none:
  assumes "teamAt b t col row" and "find (fourThrough b t col row) directions = None"
  shows "checkWin b \<lparr> mcol = col, mrow = row, mteam = t \<rparr>
           = Some \<lparr> winner = None, winningLine = None \<rparr>"
  using checkWinLoop_char[OF assms(1) directions_nonzero] assms(2)
  by (simp add: checkWin_def)

lemma checkWin_some:
  assumes "teamAt b t col row" and "find (fourThrough b t col row) directions = Some (dc, dr)"
  shows "\<exists>a. (\<forall>i\<le>a. teamAt b t (col - int i * dc) (row - int i * dr))
           \<and> \<not> teamAt b t (col - (int a + 1) * dc) (row - (int a + 1) * dr)
           \<and> checkWin b \<lparr> mcol = col, mrow = row, mteam = t \<rparr>
               = Some \<lparr> winner = Some t,
                        winningLine = Some (map (\<lambda>i. (col + (int i - int a) * dc,
                                                       row + (int i - int a) * dr))
                                              [0 ..< 4]) \<rparr>"
  using checkWinLoop_char[OF assms(1) directions_nonzero] assms(2)
  by (simp add: checkWin_def)

lemma find_None_directions:
  "find P directions = None \<longleftrightarrow> \<not> (\<exists>d \<in> set directions. P d)"
  by (auto simp: find_None_iff)

lemma find_Some_directions:
  "find P directions = Some d \<Longrightarrow> \<exists>d \<in> set directions. P d"
  by (auto simp: find_Some_iff)

lemma checkWin_returns:
  assumes "teamAt b t col row"
  shows "\<exists>res. checkWin b \<lparr> mcol = col, mrow = row, mteam = t \<rparr> = Some res
           \<and> (winner res = None \<longleftrightarrow> \<not> (\<exists>d \<in> set directions. fourThrough b t col row d))
           \<and> (winner res = Some t \<longleftrightarrow> (\<exists>d \<in> set directions. fourThrough b t col row d))
           \<and> (winningLine res = None \<longleftrightarrow> winner res = None)"
proof (cases "find (fourThrough b t col row) directions")
  case None
  from checkWin_none[OF assms None] None[unfolded find_None_directions]
  show ?thesis by simp
next
  case (Some d)
  obtain dc dr where d: "d = (dc, dr)" by (cases d)
  from checkWin_some[OF assms Some[unfolded d]] find_Some_directions[OF Some]
  show ?thesis by auto
qed

lemma run_start_unique:
  assumes "\<forall>i\<le>a. holdsTeam b t (col - int i * dc) (row - int i * dr)"
    and "\<not> holdsTeam b t (col - (int a + 1) * dc) (row - (int a + 1) * dr)"
    and "\<forall>i\<le>n. holdsTeam b t (col - int i * dc) (row - int i * dr)"
    and "\<not> holdsTeam b t (col - (int n + 1) * dc) (row - (int n + 1) * dr)"
  shows "a = n"
proof (rule ccontr)
  assume "a \<noteq> n"
  then consider "a < n" | "n < a" by linarith
  then show False
  proof cases
    case 1
    then have "Suc a \<le> n" by simp
    with assms(3) have "holdsTeam b t (col - int (Suc a) * dc) (row - int (Suc a) * dr)"
      by blast
    with assms(2) show False by (simp add: add.commute)
  next
    case 2
    then have "Suc n \<le> a" by simp
    with assms(1) have "holdsTeam b t (col - int (Suc n) * dc) (row - int (Suc n) * dr)"
      by blast
    with assms(4) show False by (simp add: add.commute)
  qed
qed

lemma upto3: "(\<forall>i\<le>3::nat. P i) \<longleftrightarrow> P 0 \<and> P 1 \<and> P 2 \<and> P 3"
proof -
  have "i \<le> 3 \<longleftrightarrow> i = 0 \<or> i = 1 \<or> i = 2 \<or> i = 3" for i :: nat by linarith
  then show ?thesis by auto
qed

lemma first_four: "map f [0 ..< 4] = [f 0, f 1, f 2, f (3::nat)]"
proof -
  have "[0 ..< 4] = [0, 1, 2, 3::nat]" by (simp add: upt_conv_Cons)
  then show ?thesis by simp
qed

lemma line_from_spec:
  assumes "\<exists>res. checkWin b mv = Some res
     \<and> (winner res = Some team \<longleftrightarrow> W)
     \<and> (winner res = None \<longleftrightarrow> \<not> W)
     \<and> (winningLine res = None \<longleftrightarrow> winner res = None)
     \<and> (\<forall>dc dr. F = Some (dc, dr) \<longrightarrow>
          (\<exists>a. (\<forall>i\<le>a. holdsTeam b team (col - int i * dc) (row - int i * dr))
             \<and> \<not> holdsTeam b team (col - (int a + 1) * dc) (row - (int a + 1) * dr)
             \<and> winningLine res
                 = Some (map (\<lambda>i. (col + (int i - int a) * dc, row + (int i - int a) * dr))
                           [0 ..< 4])))"
    and "F = Some (dc, dr)" and "W"
    and "\<forall>i\<le>n. holdsTeam b team (col - int i * dc) (row - int i * dr)"
    and "\<not> holdsTeam b team (col - (int n + 1) * dc) (row - (int n + 1) * dr)"
  shows "checkWin b mv
           = Some \<lparr> winner = Some team,
                    winningLine = Some (map (\<lambda>i. (col + (int i - int n) * dc,
                                                   row + (int i - int n) * dr)) [0 ..< 4]) \<rparr>"
proof -
  from assms(1) obtain res where
    c: "checkWin b mv = Some res
     \<and> (winner res = Some team \<longleftrightarrow> W)
     \<and> (winner res = None \<longleftrightarrow> \<not> W)
     \<and> (winningLine res = None \<longleftrightarrow> winner res = None)
     \<and> (\<forall>dc dr. F = Some (dc, dr) \<longrightarrow>
          (\<exists>a. (\<forall>i\<le>a. holdsTeam b team (col - int i * dc) (row - int i * dr))
             \<and> \<not> holdsTeam b team (col - (int a + 1) * dc) (row - (int a + 1) * dr)
             \<and> winningLine res
                 = Some (map (\<lambda>i. (col + (int i - int a) * dc, row + (int i - int a) * dr))
                           [0 ..< 4])))" ..
  from c have r: "checkWin b mv = Some res" by (rule conjunct1)
  from c assms(3) have w: "winner res = Some team" by simp
  from c have "F = Some (dc, dr) \<longrightarrow>
          (\<exists>a. (\<forall>i\<le>a. holdsTeam b team (col - int i * dc) (row - int i * dr))
             \<and> \<not> holdsTeam b team (col - (int a + 1) * dc) (row - (int a + 1) * dr)
             \<and> winningLine res
                 = Some (map (\<lambda>i. (col + (int i - int a) * dc, row + (int i - int a) * dr))
                           [0 ..< 4]))"
    by blast
  with assms(2) obtain a where
    run: "\<forall>i\<le>a. holdsTeam b team (col - int i * dc) (row - int i * dr)"
    and bend: "\<not> holdsTeam b team (col - (int a + 1) * dc) (row - (int a + 1) * dr)"
    and l: "winningLine res
               = Some (map (\<lambda>i. (col + (int i - int a) * dc, row + (int i - int a) * dr))
                         [0 ..< 4])"
    by blast
  from run_start_unique[OF run bend assms(4,5)] have "a = n" .
  with r w l show ?thesis by (cases res) simp
qed

lemma none_from_spec:
  assumes "\<exists>res. checkWin b mv = Some res
     \<and> (winner res = Some team \<longleftrightarrow> W)
     \<and> (winner res = None \<longleftrightarrow> \<not> W)
     \<and> (winningLine res = None \<longleftrightarrow> winner res = None)
     \<and> R res"
    and "\<not> W"
  shows "checkWin b mv = Some \<lparr> winner = None, winningLine = None \<rparr>"
proof -
  from assms(1) obtain res where
    c: "checkWin b mv = Some res
     \<and> (winner res = Some team \<longleftrightarrow> W)
     \<and> (winner res = None \<longleftrightarrow> \<not> W)
     \<and> (winningLine res = None \<longleftrightarrow> winner res = None)
     \<and> R res" ..
  from c assms(2) have "winner res = None" "winningLine res = None" by simp_all
  with c show ?thesis by (cases res) simp
qed

text \<open>
  Claim C4. For a board and a last move whose cell holds the team: \<^verbatim>\<open>checkWin\<close> returns,
  and it reports the team as winner exactly when there are four in a row through the
  cell along the horizontal, the vertical or one of the two diagonals; otherwise it
  reports no winner and no line. The line reported belongs to the first such axis in the
  order horizontal, vertical, diagonal \<open>(1, 1)\<close>, diagonal \<open>(1, -1)\<close>; with \<open>a\<close> the number of
  the team's cells directly behind the move (all cells back to the \<open>a\<close>-th hold the team,
  the next one does not), it is the four cells starting at the \<open>a\<close>-th cell behind the
  move, listed forward: the first four cells of the run.
\<close>

theorem checkWin_spec:
  assumes "holdsTeam b team col row"
  shows "\<exists>res. checkWin b \<lparr> mcol = col, mrow = row, mteam = team \<rparr> = Some res
     \<and> (winner res = Some team \<longleftrightarrow> fourInARow b team col row)
     \<and> (winner res = None \<longleftrightarrow> \<not> fourInARow b team col row)
     \<and> (winningLine res = None \<longleftrightarrow> winner res = None)
     \<and> (\<forall>dc dr. find (fourThrough b team col row) [(1, 0), (0, 1), (1, 1), (1, - 1)]
                   = Some (dc, dr) \<longrightarrow>
          (\<exists>a. (\<forall>i\<le>a. holdsTeam b team (col - int i * dc) (row - int i * dr))
             \<and> \<not> holdsTeam b team (col - (int a + 1) * dc) (row - (int a + 1) * dr)
             \<and> winningLine res
                 = Some (map (\<lambda>i. (col + (int i - int a) * dc, row + (int i - int a) * dr))
                           [0 ..< 4])))"
proof -
  have h: "teamAt b team col row" using assms by (simp add: teamAt_holdsTeam)
  have d: "[(1, 0), (0, 1), (1, 1), (1, - 1)] = directions" by (simp add: directions_def)
  show ?thesis
  proof (cases "find (fourThrough b team col row) directions")
    case None
    from checkWin_none[OF h None] None[unfolded find_None_directions]
    show ?thesis unfolding d fourInARow_directions using None by simp
  next
    case (Some dd)
    obtain dc dr where dd: "dd = (dc, dr)" by (cases dd)
    from checkWin_some[OF h Some[unfolded dd]] obtain a where
      run: "\<forall>i\<le>a. teamAt b team (col - int i * dc) (row - int i * dr)"
      and bend: "\<not> teamAt b team (col - (int a + 1) * dc) (row - (int a + 1) * dr)"
      and cw: "checkWin b \<lparr> mcol = col, mrow = row, mteam = team \<rparr>
               = Some \<lparr> winner = Some team,
                        winningLine = Some (map (\<lambda>i. (col + (int i - int a) * dc,
                                                       row + (int i - int a) * dr))
                                              [0 ..< 4]) \<rparr>"
      by blast
    from find_Some_directions[OF Some]
    have ex: "\<exists>d \<in> set directions. fourThrough b team col row d" .
    show ?thesis
      unfolding d fourInARow_directions
      apply (rule exI[of _ "\<lparr> winner = Some team,
                        winningLine = Some (map (\<lambda>i. (col + (int i - int a) * dc,
                                                       row + (int i - int a) * dr))
                                              [0 ..< 4]) \<rparr>"])
      using cw ex run bend Some dd by (auto simp: teamAt_holdsTeam)
  qed
qed

text \<open>
  The wins of the repository's tests on each of the four axes, each reported from the
  start of the run, and three in a row, which is no win.
\<close>

theorem checkWin_spec_witness:
  "holdsTeam bottomRowWin Red 3 5
   \<and> checkWin bottomRowWin \<lparr> mcol = 3, mrow = 5, mteam = Red \<rparr>
       = Some \<lparr> winner = Some Red,
                winningLine = Some [(0, 5), (1, 5), (2, 5), (3, 5)] \<rparr>
   \<and> holdsTeam verticalWin Red 0 5
   \<and> checkWin verticalWin \<lparr> mcol = 0, mrow = 5, mteam = Red \<rparr>
       = Some \<lparr> winner = Some Red,
                winningLine = Some [(0, 2), (0, 3), (0, 4), (0, 5)] \<rparr>
   \<and> holdsTeam diagonalWin Red 3 3
   \<and> checkWin diagonalWin \<lparr> mcol = 3, mrow = 3, mteam = Red \<rparr>
       = Some \<lparr> winner = Some Red,
                winningLine = Some [(0, 0), (1, 1), (2, 2), (3, 3)] \<rparr>
   \<and> holdsTeam antiDiagonalWin Red 3 0
   \<and> checkWin antiDiagonalWin \<lparr> mcol = 3, mrow = 0, mteam = Red \<rparr>
       = Some \<lparr> winner = Some Red,
                winningLine = Some [(0, 3), (1, 2), (2, 1), (3, 0)] \<rparr>
   \<and> holdsTeam bottomRowThree Red 2 5
   \<and> checkWin bottomRowThree \<lparr> mcol = 2, mrow = 5, mteam = Red \<rparr>
       = Some \<lparr> winner = None, winningLine = None \<rparr>"
proof -
  have hh: "holdsTeam bottomRowWin Red 3 5"
    and hv: "holdsTeam verticalWin Red 0 5"
    and hd: "holdsTeam diagonalWin Red 3 3"
    and ha: "holdsTeam antiDiagonalWin Red 3 0"
    and hn: "holdsTeam bottomRowThree Red 2 5"
    by (simp_all add: holdsTeam_def bottomRowWin_def verticalWin_def diagonalWin_def
        antiDiagonalWin_def bottomRowThree_def)
  have fh: "find (fourThrough bottomRowWin Red 3 5) [(1, 0), (0, 1), (1, 1), (1, - 1)]
              = Some (1, 0)"
    by (simp add: fourThrough_def holdsTeam_def bottomRowWin_def)
  have fv: "find (fourThrough verticalWin Red 0 5) [(1, 0), (0, 1), (1, 1), (1, - 1)]
              = Some (0, 1)"
    by (simp add: fourThrough_def holdsTeam_def verticalWin_def)
  have fd: "find (fourThrough diagonalWin Red 3 3) [(1, 0), (0, 1), (1, 1), (1, - 1)]
              = Some (1, 1)"
    by (simp add: fourThrough_def holdsTeam_def diagonalWin_def)
  have fa: "find (fourThrough antiDiagonalWin Red 3 0) [(1, 0), (0, 1), (1, 1), (1, - 1)]
              = Some (1, - 1)"
    by (simp add: fourThrough_def holdsTeam_def antiDiagonalWin_def)
  have wh: "fourInARow bottomRowWin Red 3 5"
    by (simp add: fourInARow_def fourThrough_def holdsTeam_def bottomRowWin_def)
  have wv: "fourInARow verticalWin Red 0 5"
    by (simp add: fourInARow_def fourThrough_def holdsTeam_def verticalWin_def)
  have wd: "fourInARow diagonalWin Red 3 3"
    by (simp add: fourInARow_def fourThrough_def holdsTeam_def diagonalWin_def)
  have wa: "fourInARow antiDiagonalWin Red 3 0"
    by (simp add: fourInARow_def fourThrough_def holdsTeam_def antiDiagonalWin_def)
  have wn: "\<not> fourInARow bottomRowThree Red 2 5"
    by (simp add: fourInARow_def fourThrough_def holdsTeam_def bottomRowThree_def)
  have rh: "\<forall>i\<le>3. holdsTeam bottomRowWin Red (3 - int i * 1) (5 - int i * 0)"
    unfolding upto3 by (simp add: holdsTeam_def bottomRowWin_def)
  have eh: "\<not> holdsTeam bottomRowWin Red (3 - (int 3 + 1) * 1) (5 - (int 3 + 1) * 0)"
    by (simp add: holdsTeam_def)
  have rv: "\<forall>i\<le>3. holdsTeam verticalWin Red (0 - int i * 0) (5 - int i * 1)"
    unfolding upto3 by (simp add: holdsTeam_def verticalWin_def)
  have ev: "\<not> holdsTeam verticalWin Red (0 - (int 3 + 1) * 0) (5 - (int 3 + 1) * 1)"
    by (simp add: holdsTeam_def verticalWin_def)
  have rd: "\<forall>i\<le>3. holdsTeam diagonalWin Red (3 - int i * 1) (3 - int i * 1)"
    unfolding upto3 by (simp add: holdsTeam_def diagonalWin_def)
  have ed: "\<not> holdsTeam diagonalWin Red (3 - (int 3 + 1) * 1) (3 - (int 3 + 1) * 1)"
    by (simp add: holdsTeam_def)
  have ra: "\<forall>i\<le>3. holdsTeam antiDiagonalWin Red (3 - int i * 1) (0 - int i * - 1)"
    unfolding upto3 by (simp add: holdsTeam_def antiDiagonalWin_def)
  have ea: "\<not> holdsTeam antiDiagonalWin Red (3 - (int 3 + 1) * 1) (0 - (int 3 + 1) * - 1)"
    by (simp add: holdsTeam_def)
  have 1: "checkWin bottomRowWin \<lparr> mcol = 3, mrow = 5, mteam = Red \<rparr>
       = Some \<lparr> winner = Some Red,
                winningLine = Some [(0, 5), (1, 5), (2, 5), (3, 5)] \<rparr>"
    using line_from_spec[OF checkWin_spec[OF hh] fh wh rh eh] by (simp add: first_four)
  have 2: "checkWin verticalWin \<lparr> mcol = 0, mrow = 5, mteam = Red \<rparr>
       = Some \<lparr> winner = Some Red,
                winningLine = Some [(0, 2), (0, 3), (0, 4), (0, 5)] \<rparr>"
    using line_from_spec[OF checkWin_spec[OF hv] fv wv rv ev] by (simp add: first_four)
  have 3: "checkWin diagonalWin \<lparr> mcol = 3, mrow = 3, mteam = Red \<rparr>
       = Some \<lparr> winner = Some Red,
                winningLine = Some [(0, 0), (1, 1), (2, 2), (3, 3)] \<rparr>"
    using line_from_spec[OF checkWin_spec[OF hd] fd wd rd ed] by (simp add: first_four)
  have 4: "checkWin antiDiagonalWin \<lparr> mcol = 3, mrow = 0, mteam = Red \<rparr>
       = Some \<lparr> winner = Some Red,
                winningLine = Some [(0, 3), (1, 2), (2, 1), (3, 0)] \<rparr>"
    using line_from_spec[OF checkWin_spec[OF ha] fa wa ra ea] by (simp add: first_four)
  have 5: "checkWin bottomRowThree \<lparr> mcol = 2, mrow = 5, mteam = Red \<rparr>
       = Some \<lparr> winner = None, winningLine = None \<rparr>"
    using checkWin_spec[OF hn] wn by (rule none_from_spec)
  show ?thesis by (intro conjI) (rule hh hv hd ha hn 1 2 3 4 5)+
qed

section \<open>Deciding the column\<close>

lemma pickRandomColumn_mem:
  assumes "columns \<noteq> []" "0 \<le> r" "r < 1"
  shows "pickRandomColumn r columns \<in> set columns"
proof -
  let ?n = "length columns"
  have n: "0 < ?n" using assms(1) by simp
  have "r * real ?n < real ?n" using assms(3) n by simp
  then have "\<lfloor>r * real ?n\<rfloor> < int ?n" by (simp add: floor_less_iff)
  moreover have "0 \<le> \<lfloor>r * real ?n\<rfloor>" using assms(2) by simp
  ultimately have "nat \<lfloor>r * real ?n\<rfloor> < ?n" by linarith
  then show ?thesis using assms(1) by (simp add: pickRandomColumn_def)
qed

lemma maxLoop_ge:
  fixes counts :: "nat list" and validCols :: "int list"
  defines "f \<equiv> (\<lambda>col maxVotes. if int col \<in> set validCols \<and> counts ! col > maxVotes
                   then counts ! col else maxVotes)"
  shows "m \<le> fold f cols m \<and> (\<forall>i \<in> set cols. int i \<in> set validCols \<longrightarrow> counts ! i \<le> fold f cols m)"
proof (induction cols arbitrary: m)
  case Nil
  then show ?case by simp
next
  case (Cons c cols)
  have "m \<le> f c m" by (simp add: f_def)
  moreover have "int c \<in> set validCols \<longrightarrow> counts ! c \<le> f c m" by (simp add: f_def)
  moreover note Cons.IH[of "f c m"]
  ultimately show ?case by (auto intro: order_trans)
qed

lemma maxLoop_attained:
  fixes counts :: "nat list" and validCols :: "int list"
  defines "f \<equiv> (\<lambda>col maxVotes. if int col \<in> set validCols \<and> counts ! col > maxVotes
                   then counts ! col else maxVotes)"
  shows "fold f cols m = m \<or> (\<exists>i \<in> set cols. int i \<in> set validCols \<and> counts ! i = fold f cols m)"
proof (induction cols arbitrary: m)
  case Nil
  then show ?case by simp
next
  case (Cons c cols)
  have "f c m = m \<or> (int c \<in> set validCols \<and> counts ! c = f c m)" by (simp add: f_def)
  with Cons.IH[of "f c m"] show ?case by auto
qed

lemma maxVotesLoop_ge:
  assumes "i < length counts" "int i \<in> set validCols"
  shows "counts ! i \<le> maxVotesLoop counts validCols"
  using maxLoop_ge[where m = 0 and counts = counts and validCols = validCols
      and cols = "[0 ..< length counts]"] assms
  by (simp add: maxVotesLoop_def)

lemma maxVotesLoop_attained:
  assumes "maxVotesLoop counts validCols \<noteq> 0"
  shows "\<exists>i < length counts. int i \<in> set validCols \<and> counts ! i = maxVotesLoop counts validCols"
  using maxLoop_attained[where m = 0 and counts = counts and validCols = validCols
      and cols = "[0 ..< length counts]"] assms
  by (auto simp: maxVotesLoop_def)

lemma countOf_le_max:
  assumes "c \<in> set validCols"
  shows "countOf counts c \<le> maxVotesLoop counts validCols"
proof (cases "0 \<le> c \<and> c < int (length counts)")
  case True
  then have "nat c < length counts" "int (nat c) \<in> set validCols" using assms by auto
  from maxVotesLoop_ge[OF this] True show ?thesis by (simp add: countOf_def)
next
  case False
  then have "countOf counts c = 0" by (auto simp: countOf_def)
  then show ?thesis by simp
qed

lemma decideColumn_random:
  assumes "sum_list counts = 0 \<or> (\<forall>c \<in> set validCols. countOf counts c = 0)"
  shows "decideColumn r counts validCols = pickRandomColumn r validCols"
proof (cases "sum_list counts = 0")
  case True
  then show ?thesis by (simp add: decideColumn_def)
next
  case False
  with assms have z: "\<forall>c \<in> set validCols. countOf counts c = 0" by blast
  have "maxVotesLoop counts validCols = 0"
  proof (rule ccontr)
    assume "maxVotesLoop counts validCols \<noteq> 0"
    from maxVotesLoop_attained[OF this] obtain i where
      i: "i < length counts" "int i \<in> set validCols" "counts ! i = maxVotesLoop counts validCols"
      by blast
    then have "countOf counts (int i) = maxVotesLoop counts validCols" by (simp add: countOf_def)
    with z i(2) \<open>maxVotesLoop counts validCols \<noteq> 0\<close> show False by auto
  qed
  then show ?thesis by (simp add: decideColumn_def Let_def)
qed

lemma decideColumn_max:
  assumes "validCols \<noteq> []" "0 \<le> r" "r < 1"
  shows "decideColumn r counts validCols \<in> set validCols
         \<and> (\<forall>c \<in> set validCols. countOf counts c \<le> countOf counts (decideColumn r counts validCols))"
proof (cases "sum_list counts = 0 \<or> maxVotesLoop counts validCols = 0")
  case True
  then have d: "decideColumn r counts validCols = pickRandomColumn r validCols"
    by (auto simp: decideColumn_def Let_def)
  have z: "countOf counts c = 0" if "c \<in> set validCols" for c
  proof (cases "maxVotesLoop counts validCols = 0")
    case True
    with countOf_le_max[OF that, of counts] show ?thesis by simp
  next
    case False
    with \<open>sum_list counts = 0 \<or> maxVotesLoop counts validCols = 0\<close>
    have "sum_list counts = 0" by simp
    then have "\<forall>x \<in> set counts. x = 0" by simp
    then show ?thesis by (auto simp: countOf_def)
  qed
  have "pickRandomColumn r validCols \<in> set validCols"
    using assms by (rule pickRandomColumn_mem)
  with d z show ?thesis by simp
next
  case False
  let ?m = "maxVotesLoop counts validCols"
  let ?tied = "tiedColumns counts validCols ?m"
  from False have "sum_list counts \<noteq> 0" "?m \<noteq> 0" by simp_all
  then have d: "decideColumn r counts validCols = pickRandomColumn r ?tied"
    unfolding decideColumn_def Let_def by (simp only: if_False)
  from False have "?m \<noteq> 0" by simp
  from maxVotesLoop_attained[OF this] have "?tied \<noteq> []"
    by (auto simp: tiedColumns_def filter_empty_conv)
  then have "pickRandomColumn r ?tied \<in> set ?tied"
    using assms(2,3) by (rule pickRandomColumn_mem)
  then obtain i where i: "decideColumn r counts validCols = int i" "i < length counts"
      "int i \<in> set validCols" "counts ! i = ?m"
    using d by (auto simp: tiedColumns_def)
  then have "countOf counts (decideColumn r counts validCols) = ?m" by (simp add: countOf_def)
  with i countOf_le_max[of _ validCols counts] show ?thesis by simp
qed

text \<open>
  Claim C3. For a count array of 7 entries, a non-empty list of valid columns and a
  random number \<open>r\<close> in \<open>[0, 1)\<close>: \<^verbatim>\<open>decideColumn\<close> returns a member of the valid columns;
  when the counts total zero or no valid column has a positive count it returns the
  random pick from the valid columns; a valid column whose count is above that of every
  other valid column is returned whatever \<open>r\<close> is; and in every case the column returned
  has the greatest count among the valid columns, so on a tie it is one of the tied.
\<close>

theorem decideColumn_spec:
  assumes "length counts = 7" and "validCols \<noteq> []" and "0 \<le> r" and "r < 1"
  shows "decideColumn r counts validCols \<in> set validCols
    \<and> (sum_list counts = 0 \<or> (\<forall>c \<in> set validCols. countOf counts c = 0) \<longrightarrow>
         decideColumn r counts validCols = pickRandomColumn r validCols)
    \<and> (\<forall>c \<in> set validCols.
         (\<forall>c' \<in> set validCols. c' \<noteq> c \<longrightarrow> countOf counts c' < countOf counts c) \<longrightarrow>
         decideColumn r counts validCols = c)
    \<and> (\<forall>c \<in> set validCols.
         countOf counts c \<le> countOf counts (decideColumn r counts validCols))"
proof (intro conjI impI ballI)
  note m = decideColumn_max[OF assms(2,3,4), of counts]
  show "decideColumn r counts validCols \<in> set validCols" using m by simp
  show "decideColumn r counts validCols = pickRandomColumn r validCols"
    if "sum_list counts = 0 \<or> (\<forall>c \<in> set validCols. countOf counts c = 0)"
    using that by (rule decideColumn_random)
  show "countOf counts c \<le> countOf counts (decideColumn r counts validCols)"
    if "c \<in> set validCols" for c
    using that m by simp
  show "decideColumn r counts validCols = c"
    if "c \<in> set validCols"
      and "\<forall>c' \<in> set validCols. c' \<noteq> c \<longrightarrow> countOf counts c' < countOf counts c" for c
  proof (rule ccontr)
    assume "decideColumn r counts validCols \<noteq> c"
    with that(2) m have "countOf counts (decideColumn r counts validCols) < countOf counts c"
      by simp
    moreover have "countOf counts c \<le> countOf counts (decideColumn r counts validCols)"
      using that(1) m by simp
    ultimately show False by simp
  qed
qed

text \<open>
  The tests' arrays: one column ahead, three columns tied, no votes with columns 1, 3, 5
  playable.
\<close>

theorem decideColumn_spec_witness:
  "length [1, 3, 0, 2, 1, 0, 0 :: nat] = 7 \<and> [0, 1, 2, 3, 4, 5, 6 :: int] \<noteq> []
   \<and> (0 :: real) \<le> 1 / 2 \<and> (1 / 2 :: real) < 1
   \<and> decideColumn (1 / 2) [1, 3, 0, 2, 1, 0, 0] [0, 1, 2, 3, 4, 5, 6] = 1
   \<and> decideColumn (1 / 2) [2, 1, 2, 1, 0, 2, 0] [0, 1, 2, 3, 4, 5, 6] \<in> {0, 2, 5}
   \<and> decideColumn (1 / 2) [0, 0, 0, 0, 0, 0, 0] [1, 3, 5] \<in> {1, 3, 5}"
proof -
  have r: "(0 :: real) \<le> 1 / 2" "(1 / 2 :: real) < 1" by simp_all
  have ne: "[0, 1, 2, 3, 4, 5, 6 :: int] \<noteq> []" "[1, 3, 5 :: int] \<noteq> []" by simp_all
  have l: "length [1, 3, 0, 2, 1, 0, 0 :: nat] = 7" "length [2, 1, 2, 1, 0, 2, 0 :: nat] = 7"
    "length [0, 0, 0, 0, 0, 0, 0 :: nat] = 7" by simp_all
  note a = decideColumn_spec[OF l(1) ne(1) r]
  note b = decideColumn_spec[OF l(2) ne(1) r]
  note c = decideColumn_spec[OF l(3) ne(2) r]
  have 1: "decideColumn (1 / 2) [1, 3, 0, 2, 1, 0, 0] [0, 1, 2, 3, 4, 5, 6] = 1"
    using a by (simp add: countOf_def)
  have 2: "decideColumn (1 / 2) [2, 1, 2, 1, 0, 2, 0] [0, 1, 2, 3, 4, 5, 6] \<in> {0, 2, 5}"
    using b by (auto simp: countOf_def)
  have 3: "decideColumn (1 / 2) [0, 0, 0, 0, 0, 0, 0] [1, 3, 5] \<in> {1, 3, 5}"
    using conjunct1[OF c] by simp
  from r ne l 1 2 3 show ?thesis by blast
qed

section \<open>Casting votes\<close>

lemma castVote_cases:
  assumes "castVote tm gs players playerId column = (res, gs')"
  shows "(\<not> success res \<and> gs' = gs)
         \<or> (success res \<and> voteError res = None
              \<and> gs' = gs\<lparr> votes := AList.update playerId column (votes gs) \<rparr>)"
  using assms
  by (simp add: castVote_def split: if_splits option.splits) auto

lemma castVote_closed:
  "endsAt gs = None \<or> endsAt gs = Some 0 \<Longrightarrow>
   castVote tm gs players playerId column
     = (\<lparr> success = False, voteError = Some WindowClosed \<rparr>, gs)"
  by (simp add: castVote_def)

lemma castVote_unknown:
  assumes "endsAt gs = Some e" "e \<noteq> 0" "playerId \<notin> pid ` set players"
  shows "castVote tm gs players playerId column
           = (\<lparr> success = False, voteError = Some PlayerNotFound \<rparr>, gs)"
proof -
  have "find (\<lambda>p. pid p = playerId) players = None"
    using assms(3) by (auto simp: find_None_iff)
  then show ?thesis using assms(1,2) by (simp add: castVote_def)
qed

lemma castVote_known:
  assumes "endsAt gs = Some e" "e \<noteq> 0"
    and "find (\<lambda>p. pid p = playerId) players = Some player"
  shows "castVote tm gs players playerId column =
     (if pteam player \<noteq> currentTeam gs
      then (\<lparr> success = False, voteError = Some WrongTeam \<rparr>, gs)
      else if column < 0 \<or> column \<ge> 7
      then (\<lparr> success = False, voteError = Some InvalidColumn \<rparr>, gs)
      else if \<not> isValidMove (board gs) column
      then (\<lparr> success = False, voteError = Some ColumnFull \<rparr>, gs)
      else (\<lparr> success = True, voteError = None \<rparr>,
            gs\<lparr> votes := AList.update playerId column (votes gs) \<rparr>))"
  using assms by (simp add: castVote_def)

lemma find_in_roster:
  assumes "playerId \<in> pid ` set players"
  shows "\<exists>player. find (\<lambda>p. pid p = playerId) players = Some player
           \<and> player \<in> set players \<and> pid player = playerId"
proof (cases "find (\<lambda>p. pid p = playerId) players")
  case None
  with assms show ?thesis by (auto simp: find_None_iff)
next
  case (Some player)
  then show ?thesis by (auto simp: find_Some_iff)
qed

lemma find_p1: "find (\<lambda>p. pid p = ''p1'') players0 = Some (hd players0)"
  by (simp add: players0_def)

lemma find_p3: "find (\<lambda>p. pid p = ''p3'') players0 = Some (players0 ! 2)"
  by (simp add: players0_def)

text \<open>
  Claim C6 as stated fails where the deadline is present and is the number 0, the
  deadline \<^verbatim>\<open>startVoting\<close> sets at clock time 0 with a timer of 0 seconds. The
  deadline is set, so the claim gives PlayerNotFound to a player id that is not in the
  roster and WrongTeam to a player of the other team; the code tests
  \<^verbatim>\<open>!gameState.endsAt\<close> first, which holds for 0, and answers WindowClosed to both.
\<close>

theorem castVote_zero_deadline_errors_counterexample:
  "snd (startVoting tm0 newGame 0) = zeroDeadlineGame
   \<and> endsAt zeroDeadlineGame = Some 0
   \<and> ''p9'' \<notin> pid ` set players0
   \<and> castVote tm0 zeroDeadlineGame players0 ''p9'' 3
       = (\<lparr> success = False, voteError = Some WindowClosed \<rparr>, zeroDeadlineGame)
   \<and> find (\<lambda>p. pid p = ''p3'') players0 = Some (players0 ! 2)
   \<and> pteam (players0 ! 2) \<noteq> currentTeam zeroDeadlineGame
   \<and> castVote tm0 zeroDeadlineGame players0 ''p3'' 3
       = (\<lparr> success = False, voteError = Some WindowClosed \<rparr>, zeroDeadlineGame)
   \<and> WindowClosed \<noteq> PlayerNotFound \<and> WindowClosed \<noteq> WrongTeam"
  by (simp add: startVoting_def tm0_def zeroDeadlineGame_def newGame_def players0_def
      castVote_def WindowClosed_def PlayerNotFound_def WrongTeam_def)

text \<open>
  Claim C6, amended. \<^verbatim>\<open>castVote\<close> fails with WindowClosed when no deadline is set or
  the deadline is the number 0. With any other deadline it fails with PlayerNotFound
  when the player id is not in the roster; a player id of the roster is found, and the
  call fails with WrongTeam when the player found is not on the active team, with
  InvalidColumn when the column is outside \<open>[0, 7)\<close>, with ColumnFull when the top cell
  of the column is not empty, and in the one remaining case it succeeds, with no error,
  and returns the given state with the player's entry of the vote map set to the
  column (replacing an earlier entry). Every failure returns the game state as it was
  given. A success changes the vote map only: board, team, round, deadline, last move
  and result are the given ones, so no resolution has taken place.
\<close>

theorem castVote_spec:
  "(endsAt gs = None \<or> endsAt gs = Some 0 \<longrightarrow>
      castVote tm gs players playerId column
        = (\<lparr> success = False, voteError = Some WindowClosed \<rparr>, gs))
   \<and> (endsAt gs \<noteq> None \<and> endsAt gs \<noteq> Some 0 \<longrightarrow>
        (playerId \<notin> pid ` set players \<longrightarrow>
           castVote tm gs players playerId column
             = (\<lparr> success = False, voteError = Some PlayerNotFound \<rparr>, gs))
        \<and> (playerId \<in> pid ` set players \<longrightarrow>
             (\<exists>player. find (\<lambda>p. pid p = playerId) players = Some player
                \<and> player \<in> set players \<and> pid player = playerId))
        \<and> (\<forall>player. find (\<lambda>p. pid p = playerId) players = Some player \<longrightarrow>
             (pteam player \<noteq> currentTeam gs \<longrightarrow>
                castVote tm gs players playerId column
                  = (\<lparr> success = False, voteError = Some WrongTeam \<rparr>, gs))
             \<and> (pteam player = currentTeam gs \<and> (column < 0 \<or> 7 \<le> column) \<longrightarrow>
                castVote tm gs players playerId column
                  = (\<lparr> success = False, voteError = Some InvalidColumn \<rparr>, gs))
             \<and> (pteam player = currentTeam gs \<and> 0 \<le> column \<and> column < 7
                  \<and> cellAt (board gs) 0 column \<noteq> Some None \<longrightarrow>
                castVote tm gs players playerId column
                  = (\<lparr> success = False, voteError = Some ColumnFull \<rparr>, gs))
             \<and> (pteam player = currentTeam gs \<and> 0 \<le> column \<and> column < 7
                  \<and> cellAt (board gs) 0 column = Some None \<longrightarrow>
                castVote tm gs players playerId column
                  = (\<lparr> success = True, voteError = None \<rparr>,
                     gs\<lparr> votes := AList.update playerId column (votes gs) \<rparr>))))
   \<and> map_of (AList.update playerId column (votes gs))
       = (map_of (votes gs))(playerId \<mapsto> column)
   \<and> (\<forall>res gs'. castVote tm gs players playerId column = (res, gs') \<longrightarrow>
        (\<not> success res \<longrightarrow> gs' = gs)
        \<and> (success res \<longrightarrow>
             voteError res = None
             \<and> gs' = gs\<lparr> votes := AList.update playerId column (votes gs) \<rparr>
             \<and> map_of (votes gs') = (map_of (votes gs))(playerId \<mapsto> column)))"
proof (intro conjI impI allI)
  show "castVote tm gs players playerId column
        = (\<lparr> success = False, voteError = Some WindowClosed \<rparr>, gs)"
    if "endsAt gs = None \<or> endsAt gs = Some 0"
    using that by (rule castVote_closed)
next
  show "castVote tm gs players playerId column
        = (\<lparr> success = False, voteError = Some PlayerNotFound \<rparr>, gs)"
    if "endsAt gs \<noteq> None \<and> endsAt gs \<noteq> Some 0" "playerId \<notin> pid ` set players"
    using that castVote_unknown[of gs _ playerId players tm column] by auto
next
  show "\<exists>player. find (\<lambda>p. pid p = playerId) players = Some player
                \<and> player \<in> set players \<and> pid player = playerId"
    if "playerId \<in> pid ` set players"
    using that by (rule find_in_roster)
next
  fix player
  assume w: "endsAt gs \<noteq> None \<and> endsAt gs \<noteq> Some 0"
    and f: "find (\<lambda>p. pid p = playerId) players = Some player"
  from w obtain e where e: "endsAt gs = Some e" "e \<noteq> 0" by auto
  note k = castVote_known[OF e f, of tm column]
  show "castVote tm gs players playerId column
        = (\<lparr> success = False, voteError = Some WrongTeam \<rparr>, gs)"
    if "pteam player \<noteq> currentTeam gs"
    using that k by simp
  show "castVote tm gs players playerId column
        = (\<lparr> success = False, voteError = Some InvalidColumn \<rparr>, gs)"
    if "pteam player = currentTeam gs \<and> (column < 0 \<or> 7 \<le> column)"
    using that k by auto
  show "castVote tm gs players playerId column
        = (\<lparr> success = False, voteError = Some ColumnFull \<rparr>, gs)"
    if "pteam player = currentTeam gs \<and> 0 \<le> column \<and> column < 7
          \<and> cellAt (board gs) 0 column \<noteq> Some None"
    using that k by (simp add: isValidMove_def)
  show "castVote tm gs players playerId column
        = (\<lparr> success = True, voteError = None \<rparr>,
           gs\<lparr> votes := AList.update playerId column (votes gs) \<rparr>)"
    if "pteam player = currentTeam gs \<and> 0 \<le> column \<and> column < 7
          \<and> cellAt (board gs) 0 column = Some None"
    using that k by (simp add: isValidMove_def)
next
  show "map_of (AList.update playerId column (votes gs))
       = (map_of (votes gs))(playerId \<mapsto> column)"
    by (simp add: update_conv')
next
  fix res gs'
  assume c: "castVote tm gs players playerId column = (res, gs')"
  note d = castVote_cases[OF c]
  show "gs' = gs" if "\<not> success res" using that d by blast
  show "voteError res = None" if "success res" using that d by blast
  show "gs' = gs\<lparr> votes := AList.update playerId column (votes gs) \<rparr>" if "success res"
    using that d by blast
  show "map_of (votes gs') = (map_of (votes gs))(playerId \<mapsto> column)" if "success res"
    using that d by (auto simp: update_conv')
qed

text \<open>
  The failures, with both kinds of closed window, a first vote and a re-vote (p1 moves
  the vote from column 3 to column 5) on the tests' roster.
\<close>

theorem castVote_spec_witness:
  "castVote tm0 newGame players0 ''p1'' 3
     = (\<lparr> success = False, voteError = Some WindowClosed \<rparr>, newGame)
   \<and> castVote tm0 zeroDeadlineGame players0 ''p1'' 3
     = (\<lparr> success = False, voteError = Some WindowClosed \<rparr>, zeroDeadlineGame)
   \<and> castVote tm0 openGame players0 ''p9'' 3
     = (\<lparr> success = False, voteError = Some PlayerNotFound \<rparr>, openGame)
   \<and> castVote tm0 openGame players0 ''p3'' 3
     = (\<lparr> success = False, voteError = Some WrongTeam \<rparr>, openGame)
   \<and> castVote tm0 openGame players0 ''p1'' 7
     = (\<lparr> success = False, voteError = Some InvalidColumn \<rparr>, openGame)
   \<and> castVote tm0 column0FullGame players0 ''p1'' 0
     = (\<lparr> success = False, voteError = Some ColumnFull \<rparr>, column0FullGame)
   \<and> castVote tm0 openGame players0 ''p1'' 3
     = (\<lparr> success = True, voteError = None \<rparr>, openGame\<lparr> votes := [(''p1'', 3)] \<rparr>)
   \<and> castVote tm0 votedGame players0 ''p1'' 5
     = (\<lparr> success = True, voteError = None \<rparr>,
        votedGame\<lparr> votes := [(''p1'', 5), (''p2'', 3)] \<rparr>)"
proof -
  have op: "endsAt openGame \<noteq> None \<and> endsAt openGame \<noteq> Some 0"
    by (simp add: openGame_def)
  have opf: "endsAt column0FullGame \<noteq> None \<and> endsAt column0FullGame \<noteq> Some 0"
    by (simp add: column0FullGame_def openGame_def)
  have opv: "endsAt votedGame \<noteq> None \<and> endsAt votedGame \<noteq> Some 0"
    by (simp add: votedGame_def openGame_def)
  have c1: "endsAt newGame = None \<or> endsAt newGame = Some 0"
    by (simp add: newGame_def)
  have c0: "endsAt zeroDeadlineGame = None \<or> endsAt zeroDeadlineGame = Some 0"
    by (simp add: zeroDeadlineGame_def)
  have 1: "castVote tm0 newGame players0 ''p1'' 3
     = (\<lparr> success = False, voteError = Some WindowClosed \<rparr>, newGame)"
    by (rule castVote_spec[where gs = newGame, THEN conjunct1, THEN mp, OF c1])
  have 0: "castVote tm0 zeroDeadlineGame players0 ''p1'' 3
     = (\<lparr> success = False, voteError = Some WindowClosed \<rparr>, zeroDeadlineGame)"
    by (rule castVote_spec[where gs = zeroDeadlineGame, THEN conjunct1, THEN mp, OF c0])
  note open_case = castVote_spec[THEN conjunct2, THEN conjunct1, THEN mp]
  note known_case = open_case[THEN conjunct2, THEN conjunct2, THEN spec, THEN mp]
  have n9: "''p9'' \<notin> pid ` set players0" by (simp add: players0_def)
  have 2: "castVote tm0 openGame players0 ''p9'' 3
     = (\<lparr> success = False, voteError = Some PlayerNotFound \<rparr>, openGame)"
    by (rule open_case[OF op, THEN conjunct1, THEN mp, OF n9])
  have w3: "pteam (players0 ! 2) \<noteq> currentTeam openGame"
    by (simp add: players0_def openGame_def newGame_def)
  have 3: "castVote tm0 openGame players0 ''p3'' 3
     = (\<lparr> success = False, voteError = Some WrongTeam \<rparr>, openGame)"
    by (rule known_case[OF op find_p3, THEN conjunct1, THEN mp, OF w3])
  have t4: "pteam (hd players0) = currentTeam openGame \<and> ((7::int) < 0 \<or> (7::int) \<le> 7)"
    by (simp add: players0_def openGame_def newGame_def)
  have 4: "castVote tm0 openGame players0 ''p1'' 7
     = (\<lparr> success = False, voteError = Some InvalidColumn \<rparr>, openGame)"
    by (rule known_case[OF op find_p1, THEN conjunct2, THEN conjunct1, THEN mp, OF t4])
  have t5: "pteam (hd players0) = currentTeam column0FullGame \<and> (0::int) \<le> 0 \<and> (0::int) < 7
    \<and> cellAt (board column0FullGame) 0 0 \<noteq> Some None"
    by (simp add: players0_def column0FullGame_def openGame_def newGame_def
        column0Full_def cellAt_def)
  have 5: "castVote tm0 column0FullGame players0 ''p1'' 0
     = (\<lparr> success = False, voteError = Some ColumnFull \<rparr>, column0FullGame)"
    by (rule known_case[OF opf find_p1, THEN conjunct2, THEN conjunct2, THEN conjunct1,
          THEN mp, OF t5])
  have t6: "pteam (hd players0) = currentTeam openGame \<and> (0::int) \<le> 3 \<and> (3::int) < 7
    \<and> cellAt (board openGame) 0 3 = Some None"
    by (simp add: players0_def openGame_def newGame_def newBoard_def cellAt_def)
  have v6: "AList.update ''p1'' 3 (votes openGame) = [(''p1'', 3)]"
    by (simp add: openGame_def newGame_def)
  have 6: "castVote tm0 openGame players0 ''p1'' 3
     = (\<lparr> success = True, voteError = None \<rparr>, openGame\<lparr> votes := [(''p1'', 3)] \<rparr>)"
    using known_case[OF op find_p1, THEN conjunct2, THEN conjunct2, THEN conjunct2,
          THEN mp, OF t6]
    by (simp only: v6)
  have t7: "pteam (hd players0) = currentTeam votedGame \<and> (0::int) \<le> 5 \<and> (5::int) < 7
    \<and> cellAt (board votedGame) 0 5 = Some None"
    by (simp add: players0_def votedGame_def openGame_def newGame_def newBoard_def
        cellAt_def)
  have v7: "AList.update ''p1'' 5 (votes votedGame) = [(''p1'', 5), (''p2'', 3)]"
    by (simp add: votedGame_def openGame_def newGame_def)
  have 7: "castVote tm0 votedGame players0 ''p1'' 5
     = (\<lparr> success = True, voteError = None \<rparr>,
        votedGame\<lparr> votes := [(''p1'', 5), (''p2'', 3)] \<rparr>)"
    using known_case[OF opv find_p1, THEN conjunct2, THEN conjunct2, THEN conjunct2,
          THEN mp, OF t7]
    by (simp only: v7)
  show ?thesis by (intro conjI) (rule 1 0 2 3 4 5 6 7)+
qed

text \<open>
  Claim C10, amended. \<^verbatim>\<open>castVote\<close> never reads the clock: when \<open>endsAt\<close> is present and
  is not the number 0, a vote of a known player of the active team for a playable column
  succeeds whatever time \<open>now\<close> the manager's clock shows, also a time past \<open>endsAt\<close>.
\<close>

theorem castVote_ignores_clock:
  assumes "endsAt gs = Some e" and "e \<noteq> 0"
    and "find (\<lambda>p. pid p = playerId) players = Some player"
    and "pteam player = currentTeam gs"
    and "isValidMove (board gs) column"
  shows "castVote (tm\<lparr> clockNow := now \<rparr>) gs players playerId column
           = (\<lparr> success = True, voteError = None \<rparr>,
              gs\<lparr> votes := AList.update playerId column (votes gs) \<rparr>)"
proof -
  have "0 \<le> column \<and> column < 7"
    using assms(5) by (simp add: isValidMove_def split: if_splits)
  then show ?thesis
    using assms castVote_known[OF assms(1,2,3)] by simp
qed

text \<open>
  The clock shows 99999, the deadline was 15000, and the vote is recorded.
\<close>

theorem castVote_ignores_clock_witness:
  "endsAt openGame = Some 15000 \<and> (15000::int) \<noteq> 0
   \<and> find (\<lambda>p. pid p = ''p1'') players0 = Some (hd players0)
   \<and> pteam (hd players0) = currentTeam openGame
   \<and> isValidMove (board openGame) 3
   \<and> 15000 < clockNow (tm0\<lparr> clockNow := 99999 \<rparr>)
   \<and> castVote (tm0\<lparr> clockNow := 99999 \<rparr>) openGame players0 ''p1'' 3
       = (\<lparr> success = True, voteError = None \<rparr>, openGame\<lparr> votes := [(''p1'', 3)] \<rparr>)"
proof -
  have a: "endsAt openGame = Some 15000" by (simp add: openGame_def)
  have b: "(15000::int) \<noteq> 0" by simp
  have c: "pteam (hd players0) = currentTeam openGame"
    by (simp add: players0_def openGame_def newGame_def)
  have d: "isValidMove (board openGame) 3"
    by (simp add: isValidMove_def cellAt_def openGame_def newGame_def newBoard_def)
  have v: "AList.update ''p1'' 3 (votes openGame) = [(''p1'', 3)]"
    by (simp add: openGame_def newGame_def)
  show ?thesis
    using a b c d find_p1 castVote_ignores_clock[OF a b find_p1 c d, where tm = tm0 and now = 99999]
    by (simp add: v)
qed

text \<open>
  Claim C10 as stated fails where the deadline is present and is the number 0, the
  deadline \<^verbatim>\<open>startVoting\<close> sets at clock time 0 with a timer of 0 seconds: the test
  \<^verbatim>\<open>!gameState.endsAt\<close> holds for 0, and the vote of an active-team player for a playable
  column is rejected with WindowClosed.
\<close>

theorem castVote_zero_deadline_counterexample:
  "snd (startVoting tm0 newGame 0) = zeroDeadlineGame
   \<and> endsAt zeroDeadlineGame = Some 0
   \<and> find (\<lambda>p. pid p = ''p1'') players0 = Some (hd players0)
   \<and> pteam (hd players0) = currentTeam zeroDeadlineGame
   \<and> isValidMove (board zeroDeadlineGame) 3
   \<and> castVote tm0 zeroDeadlineGame players0 ''p1'' 3
       = (\<lparr> success = False, voteError = Some WindowClosed \<rparr>, zeroDeadlineGame)"
  by (simp add: startVoting_def tm0_def zeroDeadlineGame_def newGame_def players0_def
      isValidMove_def cellAt_def newBoard_def castVote_def)

section \<open>Resolving a window\<close>

subsection \<open>No playable column\<close>

lemma validColumns_Nil_iff: "validColumns b = [] \<longleftrightarrow> (\<forall>col. \<not> isValidMove b col)"
proof
  assume "validColumns b = []"
  then have "\<forall>col \<in> set [0, 1, 2, 3, 4, 5, 6]. \<not> isValidMove b col"
    unfolding validColumns_def filter_empty_conv .
  moreover have "col \<in> set [0, 1, 2, 3, 4, 5, 6]" if "0 \<le> col" "col < 7" for col :: int
    using that by (simp; presburger)
  ultimately show "\<forall>col. \<not> isValidMove b col"
    by (metis isValidMove_def not_le)
next
  assume "\<forall>col. \<not> isValidMove b col"
  then show "validColumns b = []" by (simp add: validColumns_def)
qed

text \<open>
  Claim C7. When no column is playable, \<^verbatim>\<open>finishVoting\<close> returns \<open>moveApplied = False\<close> and
  \<open>gameEnded = True\<close> and sets the result to a draw; the board, the stored counts, the
  roster and the vote map are the given ones, whatever votes the map holds: nothing is
  tallied and no move is applied.
\<close>

theorem finishVoting_no_playable_column:
  assumes "\<forall>col. \<not> isValidMove (board gs) col"
  shows "finishVoting tm r gs players =
           Some (\<lparr> moveApplied = False, gameEnded = True, chosenColumn = None,
                   turnError = None \<rparr>,
                 tm\<lparr> currentTimeout := None \<rparr>,
                 gs\<lparr> endsAt := None,
                     result := Some \<lparr> rwinner = None, draw = Some True,
                                      rwinningLine = None \<rparr> \<rparr>,
                 players)"
proof -
  have "validColumns (board gs) = []"
    using assms by (simp add: validColumns_Nil_iff)
  then show ?thesis by (simp add: finishVoting_def)
qed

lemma fullBoard_no_valid: "validColumns fullBoard = []"
  by (simp add: validColumns_def isValidMove_def cellAt_def fullBoard_def)

text \<open>
  A full board with a vote for column 3 still in the vote map.
\<close>

theorem finishVoting_no_playable_column_witness:
  "(\<forall>col. \<not> isValidMove (board fullGame) col)
   \<and> votes fullGame = [(''p1'', 3)]
   \<and> finishVoting tm0 (1/2) fullGame players0 =
        Some (\<lparr> moveApplied = False, gameEnded = True, chosenColumn = None,
                turnError = None \<rparr>,
              tm0\<lparr> currentTimeout := None \<rparr>,
              fullGame\<lparr> endsAt := None,
                  result := Some \<lparr> rwinner = None, draw = Some True,
                                   rwinningLine = None \<rparr> \<rparr>,
              players0)"
proof -
  have h: "\<forall>col. \<not> isValidMove (board fullGame) col"
    using fullBoard_no_valid by (simp add: validColumns_Nil_iff fullGame_def)
  have v: "votes fullGame = [(''p1'', 3)]" by (simp add: fullGame_def)
  show ?thesis
    using h v finishVoting_no_playable_column[OF h, of tm0 "1/2" players0] by blast
qed

text \<open>
  The draw branch returns before the statement \<^verbatim>\<open>gameState.votes = {}\<close>. On a state put
  together by hand, a full board with the vote \<open>p1 \<mapsto> 3\<close> in the map, the call leaves the
  vote where it is; the last subsection shows that the server produces no such state.
\<close>

lemma finishVoting_draw_branch_keeps_votes:
  "votes fullGame = [(''p1'', 3)]
   \<and> finishVoting tm0 (1/2) fullGame players0 =
        Some (\<lparr> moveApplied = False, gameEnded = True, chosenColumn = None,
                turnError = None \<rparr>,
              tm0\<lparr> currentTimeout := None \<rparr>,
              fullGame\<lparr> endsAt := None,
                  result := Some \<lparr> rwinner = None, draw = Some True,
                                   rwinningLine = None \<rparr> \<rparr>,
              players0)
   \<and> votes (fullGame\<lparr> endsAt := None,
                  result := Some \<lparr> rwinner = None, draw = Some True,
                                   rwinningLine = None \<rparr> \<rparr>) \<noteq> []"
  using fullBoard_no_valid by (simp add: finishVoting_def fullGame_def openGame_def)

subsection \<open>A playable column\<close>

lemma finishVoting_unfold:
  assumes "validColumns (board gs) \<noteq> []"
    and "applyMove (board gs) (chosenFor r gs) (currentTeam gs) = Inr (b', row)"
    and "checkWin b' \<lparr> mcol = chosenFor r gs, mrow = row, mteam = currentTeam gs \<rparr> = Some res"
  shows "finishVoting tm r gs players =
    Some (\<lparr> moveApplied = True, gameEnded = (winner res \<noteq> None \<or> isBoardFull b'),
            chosenColumn = Some (chosenFor r gs), turnError = None \<rparr>,
          tm\<lparr> currentTimeout := None \<rparr>,
          (let gs4 = gs\<lparr> endsAt := None,
                        perColumnCounts := tallyVotes (votes gs) (validColumns (board gs)),
                        votes := [], board := b',
                        lastMove := Some \<lparr> mcol = chosenFor r gs, mrow = row,
                                           mteam = currentTeam gs \<rparr> \<rparr>
           in case winner res of
                Some w \<Rightarrow> gs4\<lparr> result := Some \<lparr> rwinner = Some w, draw = None,
                                               rwinningLine = winningLine res \<rparr> \<rparr>
              | None \<Rightarrow>
                  if isBoardFull b'
                  then gs4\<lparr> result := Some \<lparr> rwinner = None, draw = Some True,
                                             rwinningLine = None \<rparr> \<rparr>
                  else gs4\<lparr> currentTeam := nextTeam (currentTeam gs),
                            roundNo := roundNo gs + 1 \<rparr>),
          creditedPlayers gs (chosenFor r gs) players)"
  using assms
  by (simp add: finishVoting_def chosenFor_def creditedPlayers_def Let_def
      split: option.splits)

lemma chosenFor_playable:
  assumes "validColumns (board gs) \<noteq> []" and "0 \<le> r" and "r < 1"
  shows "chosenFor r gs \<in> set (validColumns (board gs))"
    and "isValidMove (board gs) (chosenFor r gs)"
proof -
  from decideColumn_max[OF assms, of "tallyVotes (votes gs) (validColumns (board gs))"]
  show m: "chosenFor r gs \<in> set (validColumns (board gs))"
    by (simp add: chosenFor_def)
  then show "isValidMove (board gs) (chosenFor r gs)"
    by (simp only: validColumns_def set_filter mem_Collect_eq)
qed

lemma finishVoting_playable:
  assumes "validColumns (board gs) \<noteq> []" and "0 \<le> r" and "r < 1"
  obtains b' row res where
    "applyMove (board gs) (chosenFor r gs) (currentTeam gs) = Inr (b', row)"
    and "checkWin b' \<lparr> mcol = chosenFor r gs, mrow = row, mteam = currentTeam gs \<rparr> = Some res"
    and "winner res = None
           \<longleftrightarrow> \<not> (\<exists>d \<in> set directions. fourThrough b' (currentTeam gs) (chosenFor r gs) row d)"
proof -
  from chosenFor_playable(2)[OF assms] have "isValidMove (board gs) (chosenFor r gs)" .
  from applyMove_valid[OF this, of "currentTeam gs"] obtain row b' where
    a: "applyMove (board gs) (chosenFor r gs) (currentTeam gs) = Inr (b', row)" by blast
  from checkWin_returns[OF applyMove_teamAt[OF a]] obtain res where
    c: "checkWin b' \<lparr> mcol = chosenFor r gs, mrow = row, mteam = currentTeam gs \<rparr> = Some res
      \<and> (winner res = None
       \<longleftrightarrow> \<not> (\<exists>d \<in> set directions. fourThrough b' (currentTeam gs) (chosenFor r gs) row d))
      \<and> (winner res = Some (currentTeam gs)
       \<longleftrightarrow> (\<exists>d \<in> set directions. fourThrough b' (currentTeam gs) (chosenFor r gs) row d))
      \<and> (winningLine res = None \<longleftrightarrow> winner res = None)" ..
  from that[OF a conjunct1[OF c] conjunct1[OF conjunct2[OF c]]] show ?thesis .
qed

subsection \<open>The chosen column and the votes\<close>

lemma mem_validColumns: "c \<in> set (validColumns b) \<longleftrightarrow> isValidMove b c"
proof -
  have "c \<in> set [0, 1, 2, 3, 4, 5, 6]" if "0 \<le> c" "c < 7"
    using that by (simp; presburger)
  then have "isValidMove b c \<Longrightarrow> c \<in> set [0, 1, 2, 3, 4, 5, 6]"
    using isValidMove_range[of b c] by blast
  then show ?thesis unfolding validColumns_def set_filter by blast
qed

lemma tally_fold:
  fixes validCols :: "int list"
  defines "f \<equiv> (\<lambda>column counts.
             if column \<in> set validCols \<and> column \<ge> 0 \<and> column < 7
             then counts[nat column := counts ! nat column + 1]
             else counts)"
  assumes "length cs = 7" and "0 \<le> c" and "c < 7"
  shows "length (fold f vals cs) = 7
         \<and> fold f vals cs ! nat c
             = cs ! nat c + (if c \<in> set validCols then length (filter (\<lambda>v. v = c) vals) else 0)"
  using assms(2)
proof (induction vals arbitrary: cs)
  case Nil
  then show ?case by simp
next
  case (Cons v vals)
  have l: "length (f v cs) = 7" using Cons.prems by (simp add: f_def)
  have n: "nat c < length cs" using Cons.prems assms(3,4) by simp
  have s: "f v cs ! nat c = cs ! nat c + (if v = c \<and> c \<in> set validCols then 1 else 0)"
  proof (cases "v \<in> set validCols \<and> v \<ge> 0 \<and> v < 7")
    case True
    then have "nat v = nat c \<longleftrightarrow> v = c" using assms(3) by auto
    with True n show ?thesis by (auto simp: f_def nth_list_update)
  next
    case False
    with assms(3,4) show ?thesis by (auto simp: f_def)
  qed
  from Cons.IH[OF l] s l show ?case by (auto simp: eq_commute[of c])
qed

lemma tallyVotes_count:
  assumes "0 \<le> c" and "c < 7"
  shows "countOf (tallyVotes vs validCols) c
           = (if c \<in> set validCols then votesFor vs c else 0)"
proof -
  let ?z = "[0, 0, 0, 0, 0, 0, 0 :: nat]"
  have l: "length ?z = 7" by simp
  have "\<forall>x \<in> set ?z. x = 0" by simp
  moreover have "?z ! nat c \<in> set ?z" using assms by (intro nth_mem) simp
  ultimately have z: "?z ! nat c = 0" by blast
  have f: "length (filter (\<lambda>v. v = c) (map snd vs)) = votesFor vs c"
    by (simp add: votesFor_def filter_map comp_def)
  from tally_fold[OF l assms, of validCols "map snd vs"] assms
  show ?thesis
    unfolding tallyVotes_def countOf_def z f by simp
qed

lemma chosenFor_majority:
  assumes "validColumns (board gs) \<noteq> []" and "0 \<le> r" and "r < 1"
  shows "isValidMove (board gs) c \<Longrightarrow>
           votesFor (votes gs) c \<le> votesFor (votes gs) (chosenFor r gs)"
proof -
  assume v: "isValidMove (board gs) c"
  let ?vc = "validColumns (board gs)"
  let ?t = "tallyVotes (votes gs) ?vc"
  from decideColumn_max[OF assms, of ?t]
  have m: "chosenFor r gs \<in> set ?vc"
    and le: "\<forall>c \<in> set ?vc. countOf ?t c \<le> countOf ?t (chosenFor r gs)"
    by (simp_all add: chosenFor_def)
  from v have c: "c \<in> set ?vc" by (simp add: mem_validColumns)
  from m have "isValidMove (board gs) (chosenFor r gs)" by (simp add: mem_validColumns)
  from isValidMove_range[OF this] isValidMove_range[OF v] m c
  have "countOf ?t (chosenFor r gs) = votesFor (votes gs) (chosenFor r gs)"
    "countOf ?t c = votesFor (votes gs) c"
    by (simp_all add: tallyVotes_count)
  with le c show ?thesis by auto
qed

lemma chosenFor_leader:
  assumes "validColumns (board gs) \<noteq> []" and "0 \<le> r" and "r < 1"
    and "isValidMove (board gs) c"
    and "\<forall>c'. isValidMove (board gs) c' \<and> c' \<noteq> c \<longrightarrow>
           votesFor (votes gs) c' < votesFor (votes gs) c"
  shows "chosenFor r gs = c"
proof (rule ccontr)
  assume "chosenFor r gs \<noteq> c"
  with assms(5) chosenFor_playable(2)[OF assms(1,2,3)]
  have "votesFor (votes gs) (chosenFor r gs) < votesFor (votes gs) c" by blast
  with chosenFor_majority[OF assms(1,2,3,4)] show False by simp
qed

subsection \<open>The example window and the state it resolves to\<close>

lemma half_unit: "(0::real) \<le> 1 / 2" "(1 / 2 :: real) < 1"
  by simp_all

lemma validColumns_votedGame: "validColumns (board votedGame) = [0, 1, 2, 3, 4, 5, 6]"
  by (simp add: validColumns_def isValidMove_def cellAt_def votedGame_def openGame_def
      newGame_def newBoard_def)

lemma validColumns_resolvedGame: "validColumns (board resolvedGame) = [0, 1, 2, 3, 4, 5, 6]"
  by (simp add: validColumns_def isValidMove_def cellAt_def resolvedGame_def
      afterFirstMove_def)

lemma chosenFor_votedGame: "chosenFor (1 / 2) votedGame = 3"
  unfolding chosenFor_def validColumns_votedGame
  by (simp add: votedGame_def openGame_def newGame_def tallyVotes_def decideColumn_def
      maxVotesLoop_def tiedColumns_def pickRandomColumn_def upt_conv_Cons)

lemma chosenFor_resolvedGame: "chosenFor (1 / 2) resolvedGame = 3"
  unfolding chosenFor_def validColumns_resolvedGame
  by (simp add: resolvedGame_def tallyVotes_def decideColumn_def pickRandomColumn_def)

lemma applyMove_first: "applyMove (board votedGame) 3 (currentTeam votedGame) = Inr (afterFirstMove, 5)"
  by (simp add: applyMove_def isValidMove_def cellAt_def votedGame_def openGame_def
      newGame_def newBoard_def afterFirstMove_def eval_nat_numeral)

lemma applyMove_second:
  "applyMove (board resolvedGame) 3 (currentTeam resolvedGame) = Inr (afterSecondMove, 4)"
  by (simp add: applyMove_def isValidMove_def cellAt_def resolvedGame_def
      afterFirstMove_def afterSecondMove_def eval_nat_numeral)

lemma no_four_first: "\<not> (\<exists>d \<in> set directions. fourThrough afterFirstMove Red 3 5 d)"
  by (simp add: directions_def fourThrough_def holdsTeam_def afterFirstMove_def)

lemma no_four_second: "\<not> (\<exists>d \<in> set directions. fourThrough afterSecondMove Yellow 3 4 d)"
  by (simp add: directions_def fourThrough_def holdsTeam_def afterSecondMove_def)

lemma not_full_first: "\<not> isBoardFull afterFirstMove"
  by (simp add: isBoardFull_def cellAt_def afterFirstMove_def)

lemma not_full_second: "\<not> isBoardFull afterSecondMove"
  by (simp add: isBoardFull_def cellAt_def afterSecondMove_def)

lemma credited_first: "creditedPlayers votedGame 3 players0 = players1"
  by (simp add: creditedPlayers_def votedGame_def openGame_def newGame_def players0_def
      players1_def)

lemma credited_second: "creditedPlayers resolvedGame 3 players1 = players1"
  by (simp add: creditedPlayers_def resolvedGame_def players1_def)

lemma votedGame_resolved:
  "votedGame\<lparr> endsAt := None,
       perColumnCounts := tallyVotes (votes votedGame) (validColumns (board votedGame)),
       votes := [], board := afterFirstMove,
       lastMove := Some \<lparr> mcol = 3, mrow = 5, mteam = currentTeam votedGame \<rparr>,
       currentTeam := nextTeam (currentTeam votedGame),
       roundNo := roundNo votedGame + 1 \<rparr> = resolvedGame"
  unfolding validColumns_votedGame
  by (simp add: votedGame_def openGame_def newGame_def resolvedGame_def tallyVotes_def
      nextTeam_def)

lemma resolvedGame_again:
  "resolvedGame\<lparr> endsAt := None,
       perColumnCounts := tallyVotes (votes resolvedGame) (validColumns (board resolvedGame)),
       votes := [], board := afterSecondMove,
       lastMove := Some \<lparr> mcol = 3, mrow = 4, mteam = currentTeam resolvedGame \<rparr>,
       currentTeam := nextTeam (currentTeam resolvedGame),
       roundNo := roundNo resolvedGame + 1 \<rparr>
   = resolvedGame\<lparr> perColumnCounts := [0, 0, 0, 0, 0, 0, 0], board := afterSecondMove,
       lastMove := Some \<lparr> mcol = 3, mrow = 4, mteam = Yellow \<rparr>,
       currentTeam := Red, roundNo := 3 \<rparr>"
  unfolding validColumns_resolvedGame
  by (simp add: resolvedGame_def tallyVotes_def nextTeam_def)

subsection \<open>The move cannot fail\<close>

text \<open>
  Claim C9. When \<^verbatim>\<open>finishVoting\<close> finds a playable column, the column \<^verbatim>\<open>decideColumn\<close>
  chooses is one of the playable columns, so \<^verbatim>\<open>applyMove\<close> succeeds on it and
  \<^verbatim>\<open>finishVoting\<close> returns with the move applied and no error: the catch branch is not
  taken.
\<close>

theorem finishVoting_move_cannot_fail:
  assumes "validColumns (board gs) \<noteq> []" and "0 \<le> r" and "r < 1"
  shows "chosenFor r gs \<in> set (validColumns (board gs))
    \<and> isValidMove (board gs) (chosenFor r gs)
    \<and> (\<exists>b' row. applyMove (board gs) (chosenFor r gs) (currentTeam gs) = Inr (b', row))
    \<and> (\<exists>tr tm' gs' players'.
          finishVoting tm r gs players = Some (tr, tm', gs', players')
          \<and> moveApplied tr \<and> turnError tr = None
          \<and> chosenColumn tr = Some (chosenFor r gs))"
proof -
  from finishVoting_playable[OF assms] obtain b' row res where
    a: "applyMove (board gs) (chosenFor r gs) (currentTeam gs) = Inr (b', row)"
    and c: "checkWin b' \<lparr> mcol = chosenFor r gs, mrow = row, mteam = currentTeam gs \<rparr>
              = Some res" .
  from finishVoting_unfold[OF assms(1) a c, of tm players]
  have "\<exists>tr tm' gs' players'.
          finishVoting tm r gs players = Some (tr, tm', gs', players')
          \<and> moveApplied tr \<and> turnError tr = None
          \<and> chosenColumn tr = Some (chosenFor r gs)"
    by simp
  with chosenFor_playable[OF assms] a show ?thesis by blast
qed

text \<open>
  The tests' window with both red votes on column 3.
\<close>

theorem finishVoting_move_cannot_fail_witness:
  "validColumns (board votedGame) \<noteq> [] \<and> (0::real) \<le> 1 / 2 \<and> (1 / 2 :: real) < 1
   \<and> chosenFor (1 / 2) votedGame = 3
   \<and> isValidMove (board votedGame) 3
   \<and> (\<exists>tr tm' gs' players'.
         finishVoting tm0 (1 / 2) votedGame players0 = Some (tr, tm', gs', players')
         \<and> moveApplied tr \<and> turnError tr = None \<and> chosenColumn tr = Some 3)"
proof -
  have v: "validColumns (board votedGame) \<noteq> []" by (simp add: validColumns_votedGame)
  from finishVoting_move_cannot_fail[OF v half_unit, of tm0 players0] v half_unit
  show ?thesis unfolding chosenFor_votedGame by simp
qed

subsection \<open>A round that continues\<close>

lemma votesFor_votedGame: "votesFor (votes votedGame) c = (if c = 3 then 2 else 0)"
  by (simp add: votesFor_def votedGame_def openGame_def newGame_def)

lemma chosenFor_votedGame_any:
  assumes "0 \<le> r" and "r < 1"
  shows "chosenFor r votedGame = 3"
proof -
  have v: "validColumns (board votedGame) \<noteq> []" by (simp add: validColumns_votedGame)
  have "isValidMove (board votedGame) 3"
    using mem_validColumns[of 3 "board votedGame"] by (simp add: validColumns_votedGame)
  moreover have "\<forall>c'. isValidMove (board votedGame) c' \<and> c' \<noteq> 3 \<longrightarrow>
      votesFor (votes votedGame) c' < votesFor (votes votedGame) 3"
    by (simp add: votesFor_votedGame)
  ultimately show ?thesis using v assms by (intro chosenFor_leader)
qed

text \<open>
  Claim C2. When a column is playable and the move decided on neither makes four in a
  row through its cell nor fills the board, \<^verbatim>\<open>finishVoting\<close> returns \<open>moveApplied = True\<close>,
  \<open>gameEnded = False\<close> and the chosen column. The chosen column is playable and no
  playable column has more votes in the vote map; a playable column with more votes than
  every other playable column is the one chosen, whatever the random number. The new
  board holds the active team's piece at the lowest empty row of that column and agrees
  with the old board elsewhere; the other team becomes active, the round grows by one,
  the vote map is empty and the deadline is absent.
\<close>

theorem finishVoting_next_round:
  assumes "validColumns (board gs) \<noteq> []" and "0 \<le> r" and "r < 1"
    and "applyMove (board gs) (chosenFor r gs) (currentTeam gs) = Inr (b', row)"
    and "\<not> fourInARow b' (currentTeam gs) (chosenFor r gs) row"
    and "\<not> isBoardFull b'"
  shows "finishVoting tm r gs players =
      Some (\<lparr> moveApplied = True, gameEnded = False, chosenColumn = Some (chosenFor r gs),
              turnError = None \<rparr>,
            tm\<lparr> currentTimeout := None \<rparr>,
            gs\<lparr> endsAt := None,
                perColumnCounts := tallyVotes (votes gs) (validColumns (board gs)),
                votes := [], board := b',
                lastMove := Some \<lparr> mcol = chosenFor r gs, mrow = row,
                                   mteam = currentTeam gs \<rparr>,
                currentTeam := nextTeam (currentTeam gs),
                roundNo := roundNo gs + 1 \<rparr>,
            creditedPlayers gs (chosenFor r gs) players)
    \<and> isValidMove (board gs) (chosenFor r gs)
    \<and> (\<forall>c. isValidMove (board gs) c \<longrightarrow>
          votesFor (votes gs) c \<le> votesFor (votes gs) (chosenFor r gs))
    \<and> (\<forall>c. isValidMove (board gs) c
            \<and> (\<forall>c'. isValidMove (board gs) c' \<and> c' \<noteq> c \<longrightarrow>
                  votesFor (votes gs) c' < votesFor (votes gs) c) \<longrightarrow>
          chosenFor r gs = c)
    \<and> nextTeam (currentTeam gs) \<noteq> currentTeam gs
    \<and> 0 \<le> row \<and> row < 6
    \<and> cellAt (board gs) row (chosenFor r gs) = Some None
    \<and> (\<forall>r'. row < r' \<and> r' < 6 \<longrightarrow> cellAt (board gs) r' (chosenFor r gs) \<noteq> Some None)
    \<and> (\<forall>r' c. cellAt b' r' c
          = (if r' = row \<and> c = chosenFor r gs then Some (Some (currentTeam gs))
             else cellAt (board gs) r' c))"
proof -
  note a = assms(4)
  from checkWin_returns[OF applyMove_teamAt[OF a]] obtain res where
    cw: "checkWin b' \<lparr> mcol = chosenFor r gs, mrow = row, mteam = currentTeam gs \<rparr> = Some res
      \<and> (winner res = None
       \<longleftrightarrow> \<not> (\<exists>d \<in> set directions. fourThrough b' (currentTeam gs) (chosenFor r gs) row d))
      \<and> (winner res = Some (currentTeam gs)
       \<longleftrightarrow> (\<exists>d \<in> set directions. fourThrough b' (currentTeam gs) (chosenFor r gs) row d))
      \<and> (winningLine res = None \<longleftrightarrow> winner res = None)" ..
  from cw have c: "checkWin b' \<lparr> mcol = chosenFor r gs, mrow = row, mteam = currentTeam gs \<rparr>
      = Some res" by (rule conjunct1)
  from conjunct1[OF conjunct2[OF cw]] assms(5)[unfolded fourInARow_directions]
  have w: "winner res = None" by (rule iffD2)
  from finishVoting_unfold[OF assms(1) a c, of tm players] w assms(6)
  have 1: "finishVoting tm r gs players =
      Some (\<lparr> moveApplied = True, gameEnded = False, chosenColumn = Some (chosenFor r gs),
              turnError = None \<rparr>,
            tm\<lparr> currentTimeout := None \<rparr>,
            gs\<lparr> endsAt := None,
                perColumnCounts := tallyVotes (votes gs) (validColumns (board gs)),
                votes := [], board := b',
                lastMove := Some \<lparr> mcol = chosenFor r gs, mrow = row,
                                   mteam = currentTeam gs \<rparr>,
                currentTeam := nextTeam (currentTeam gs),
                roundNo := roundNo gs + 1 \<rparr>,
            creditedPlayers gs (chosenFor r gs) players)"
    by simp
  have 2: "nextTeam (currentTeam gs) \<noteq> currentTeam gs"
    by (cases "currentTeam gs") (simp_all add: nextTeam_def)
  from applyMove_Inr[OF a] have "findTargetRow (board gs) (chosenFor r gs) 6 = Some row" by simp
  from findTargetRow_Some[OF this]
  have 3: "0 \<le> row" "row < 6" "cellAt (board gs) row (chosenFor r gs) = Some None"
    "\<forall>r'. row < r' \<and> r' < 6 \<longrightarrow> cellAt (board gs) r' (chosenFor r gs) \<noteq> Some None"
    by simp_all
  have 4: "\<forall>r' c. cellAt b' r' c
          = (if r' = row \<and> c = chosenFor r gs then Some (Some (currentTeam gs))
             else cellAt (board gs) r' c)"
    using applyMove_cells[OF a] by simp
  have 5: "isValidMove (board gs) (chosenFor r gs)"
    using assms(1,2,3) by (rule chosenFor_playable(2))
  have 6: "\<forall>c. isValidMove (board gs) c \<longrightarrow>
          votesFor (votes gs) c \<le> votesFor (votes gs) (chosenFor r gs)"
    using chosenFor_majority[OF assms(1,2,3)] by blast
  have 7: "\<forall>c. isValidMove (board gs) c
            \<and> (\<forall>c'. isValidMove (board gs) c' \<and> c' \<noteq> c \<longrightarrow>
                  votesFor (votes gs) c' < votesFor (votes gs) c) \<longrightarrow>
          chosenFor r gs = c"
    using chosenFor_leader[OF assms(1,2,3)] by blast
  show ?thesis by (intro conjI) (rule 1 2 3 4 5 6 7)+
qed

lemma no_four_in_a_row_first: "\<not> fourInARow afterFirstMove Red 3 5"
  unfolding fourInARow_directions by (rule no_four_first)

lemma unit_points: "(0::real) \<le> 0" "(0::real) < 1" "(0::real) \<le> 9 / 10" "(9 / 10 :: real) < 1"
  by simp_all

text \<open>
  Votes \<open>p1 \<mapsto> 3\<close>, \<open>p2 \<mapsto> 3\<close> on a new board, with the random number at 0 and at 9/10
  (where a pick among the seven columns would be column 0 and column 6): the piece lands
  on row 5 of column 3, Yellow becomes active, the round is 2.
\<close>

theorem finishVoting_next_round_witness:
  "validColumns (board votedGame) \<noteq> []
   \<and> votes votedGame = [(''p1'', 3), (''p2'', 3)]
   \<and> applyMove (board votedGame) (chosenFor 0 votedGame) (currentTeam votedGame)
       = Inr (afterFirstMove, 5)
   \<and> \<not> fourInARow afterFirstMove (currentTeam votedGame) (chosenFor 0 votedGame) 5
   \<and> applyMove (board votedGame) (chosenFor (9 / 10) votedGame) (currentTeam votedGame)
       = Inr (afterFirstMove, 5)
   \<and> \<not> fourInARow afterFirstMove (currentTeam votedGame) (chosenFor (9 / 10) votedGame) 5
   \<and> \<not> isBoardFull afterFirstMove
   \<and> finishVoting tm0 0 votedGame players0 =
       Some (\<lparr> moveApplied = True, gameEnded = False, chosenColumn = Some 3,
               turnError = None \<rparr>,
             tm0\<lparr> currentTimeout := None \<rparr>, resolvedGame, players1)
   \<and> finishVoting tm0 (9 / 10) votedGame players0 =
       Some (\<lparr> moveApplied = True, gameEnded = False, chosenColumn = Some 3,
               turnError = None \<rparr>,
             tm0\<lparr> currentTimeout := None \<rparr>, resolvedGame, players1)
   \<and> cellAt (board resolvedGame) 5 3 = Some (Some Red)
   \<and> currentTeam resolvedGame = Yellow \<and> roundNo resolvedGame = roundNo votedGame + 1
   \<and> votes resolvedGame = [] \<and> endsAt resolvedGame = None"
proof -
  have v: "validColumns (board votedGame) \<noteq> []" by (simp add: validColumns_votedGame)
  have t: "currentTeam votedGame = Red" by (simp add: votedGame_def openGame_def newGame_def)
  note c0 = chosenFor_votedGame_any[OF unit_points(1,2)]
  note c9 = chosenFor_votedGame_any[OF unit_points(3,4)]
  have a0: "applyMove (board votedGame) (chosenFor 0 votedGame) (currentTeam votedGame)
       = Inr (afterFirstMove, 5)"
    unfolding c0 by (rule applyMove_first)
  have a9: "applyMove (board votedGame) (chosenFor (9 / 10) votedGame) (currentTeam votedGame)
       = Inr (afterFirstMove, 5)"
    unfolding c9 by (rule applyMove_first)
  have n0: "\<not> fourInARow afterFirstMove (currentTeam votedGame) (chosenFor 0 votedGame) 5"
    unfolding c0 t by (rule no_four_in_a_row_first)
  have n9: "\<not> fourInARow afterFirstMove (currentTeam votedGame)
               (chosenFor (9 / 10) votedGame) 5"
    unfolding c9 t by (rule no_four_in_a_row_first)
  note th0 = finishVoting_next_round[OF v unit_points(1,2) a0 n0 not_full_first,
      of tm0 players0]
  note th9 = finishVoting_next_round[OF v unit_points(3,4) a9 n9 not_full_first,
      of tm0 players0]
  from conjunct1[OF th0]
  have f0: "finishVoting tm0 0 votedGame players0 =
       Some (\<lparr> moveApplied = True, gameEnded = False, chosenColumn = Some 3,
               turnError = None \<rparr>,
             tm0\<lparr> currentTimeout := None \<rparr>, resolvedGame, players1)"
    unfolding c0 votedGame_resolved credited_first .
  from conjunct1[OF th9]
  have f9: "finishVoting tm0 (9 / 10) votedGame players0 =
       Some (\<lparr> moveApplied = True, gameEnded = False, chosenColumn = Some 3,
               turnError = None \<rparr>,
             tm0\<lparr> currentTimeout := None \<rparr>, resolvedGame, players1)"
    unfolding c9 votedGame_resolved credited_first .
  have r: "cellAt (board resolvedGame) 5 3 = Some (Some Red)"
    "currentTeam resolvedGame = Yellow" "roundNo resolvedGame = roundNo votedGame + 1"
    "votes resolvedGame = []" "endsAt resolvedGame = None"
    "votes votedGame = [(''p1'', 3), (''p2'', 3)]"
    by (simp_all add: resolvedGame_def afterFirstMove_def cellAt_def votedGame_def
        openGame_def newGame_def)
  show ?thesis by (intro conjI) (rule v a0 a9 n0 n9 not_full_first f0 f9 r)+
qed

subsection \<open>A second call\<close>

text \<open>
  Claim C1 says a second call of \<^verbatim>\<open>finishVoting\<close>, after the window was resolved and the
  deadline cleared, is a no-op or an error. The first call on the tests' window leaves
  the resolved state; a second call on that state, with nothing opened in between,
  applies a move for Yellow in column 3 and advances team and round again.
\<close>

theorem finishVoting_twice_counterexample:
  "finishVoting tm0 (1 / 2) votedGame players0 =
       Some (\<lparr> moveApplied = True, gameEnded = False, chosenColumn = Some 3,
               turnError = None \<rparr>,
             tm0\<lparr> currentTimeout := None \<rparr>, resolvedGame, players1)
   \<and> endsAt resolvedGame = None
   \<and> finishVoting (tm0\<lparr> currentTimeout := None \<rparr>) (1 / 2) resolvedGame players1 =
       Some (\<lparr> moveApplied = True, gameEnded = False, chosenColumn = Some 3,
               turnError = None \<rparr>,
             tm0\<lparr> currentTimeout := None \<rparr>,
             resolvedGame\<lparr> perColumnCounts := [0, 0, 0, 0, 0, 0, 0],
                 board := afterSecondMove,
                 lastMove := Some \<lparr> mcol = 3, mrow = 4, mteam = Yellow \<rparr>,
                 currentTeam := Red, roundNo := 3 \<rparr>,
             players1)"
proof -
  have v1: "validColumns (board votedGame) \<noteq> []" by (simp add: validColumns_votedGame)
  have v2: "validColumns (board resolvedGame) \<noteq> []" by (simp add: validColumns_resolvedGame)
  have t1: "currentTeam votedGame = Red" by (simp add: votedGame_def openGame_def newGame_def)
  have t2: "currentTeam resolvedGame = Yellow" by (simp add: resolvedGame_def)
  have h1: "teamAt afterFirstMove Red 3 5"
    by (simp add: teamAt_def cellAt_def afterFirstMove_def)
  have h2: "teamAt afterSecondMove Yellow 3 4"
    by (simp add: teamAt_def cellAt_def afterSecondMove_def)
  have c1: "checkWin afterFirstMove
              \<lparr> mcol = chosenFor (1 / 2) votedGame, mrow = 5, mteam = currentTeam votedGame \<rparr>
            = Some \<lparr> winner = None, winningLine = None \<rparr>"
    unfolding chosenFor_votedGame t1
    by (rule checkWin_none[OF h1 no_four_first[folded find_None_directions]])
  have c2: "checkWin afterSecondMove
              \<lparr> mcol = chosenFor (1 / 2) resolvedGame, mrow = 4,
                mteam = currentTeam resolvedGame \<rparr>
            = Some \<lparr> winner = None, winningLine = None \<rparr>"
    unfolding chosenFor_resolvedGame t2
    by (rule checkWin_none[OF h2 no_four_second[folded find_None_directions]])
  have a1: "applyMove (board votedGame) (chosenFor (1 / 2) votedGame) (currentTeam votedGame)
       = Inr (afterFirstMove, 5)"
    unfolding chosenFor_votedGame by (rule applyMove_first)
  have a2: "applyMove (board resolvedGame) (chosenFor (1 / 2) resolvedGame)
              (currentTeam resolvedGame) = Inr (afterSecondMove, 4)"
    unfolding chosenFor_resolvedGame by (rule applyMove_second)
  have 1: "finishVoting tm0 (1 / 2) votedGame players0 =
       Some (\<lparr> moveApplied = True, gameEnded = False, chosenColumn = Some 3,
               turnError = None \<rparr>,
             tm0\<lparr> currentTimeout := None \<rparr>, resolvedGame, players1)"
    using finishVoting_unfold[OF v1 a1 c1, of tm0 players0] not_full_first
    by (simp add: chosenFor_votedGame votedGame_resolved credited_first)
  have 2: "finishVoting (tm0\<lparr> currentTimeout := None \<rparr>) (1 / 2) resolvedGame players1 =
       Some (\<lparr> moveApplied = True, gameEnded = False, chosenColumn = Some 3,
               turnError = None \<rparr>,
             tm0\<lparr> currentTimeout := None \<rparr>,
             resolvedGame\<lparr> perColumnCounts := [0, 0, 0, 0, 0, 0, 0],
                 board := afterSecondMove,
                 lastMove := Some \<lparr> mcol = 3, mrow = 4, mteam = Yellow \<rparr>,
                 currentTeam := Red, roundNo := 3 \<rparr>,
             players1)"
    using finishVoting_unfold[OF v2 a2 c2, of "tm0\<lparr> currentTimeout := None \<rparr>" players1]
      not_full_second
    by (simp add: chosenFor_resolvedGame resolvedGame_again credited_second)
  have 3: "endsAt resolvedGame = None" by (simp add: resolvedGame_def)
  from 1 3 2 show ?thesis by (intro conjI)
qed

lemma finishVoting_fields:
  assumes "validColumns (board gs) \<noteq> []"
    and "applyMove (board gs) (chosenFor r gs) (currentTeam gs) = Inr (b', row)"
    and "checkWin b' \<lparr> mcol = chosenFor r gs, mrow = row, mteam = currentTeam gs \<rparr> = Some res"
    and "winner res = None \<longleftrightarrow> \<not> W"
  shows "\<exists>tr gs'.
           finishVoting tm r gs players
             = Some (tr, tm\<lparr> currentTimeout := None \<rparr>, gs',
                     creditedPlayers gs (chosenFor r gs) players)
           \<and> moveApplied tr \<and> turnError tr = None
           \<and> chosenColumn tr = Some (chosenFor r gs)
           \<and> (gameEnded tr \<longleftrightarrow> W \<or> isBoardFull b')
           \<and> board gs' = b'
           \<and> lastMove gs' = Some \<lparr> mcol = chosenFor r gs, mrow = row, mteam = currentTeam gs \<rparr>
           \<and> votes gs' = [] \<and> endsAt gs' = None
           \<and> perColumnCounts gs' = tallyVotes (votes gs) (validColumns (board gs))
           \<and> (\<not> gameEnded tr \<longrightarrow>
                 currentTeam gs' = nextTeam (currentTeam gs)
                 \<and> roundNo gs' = roundNo gs + 1 \<and> result gs' = result gs)
           \<and> (gameEnded tr \<longrightarrow>
                 currentTeam gs' = currentTeam gs \<and> roundNo gs' = roundNo gs
                 \<and> result gs' \<noteq> None)"
proof -
  note u = finishVoting_unfold[OF assms(1,2,3), of tm players]
  show ?thesis
  proof (cases "winner res")
    case (Some w)
    with assms(4) have W by auto
    with u Some show ?thesis by simp
  next
    case None
    with assms(4) have "\<not> W" by simp
    with u None show ?thesis by (cases "isBoardFull b'") simp_all
  qed
qed

text \<open>
  Claim C1, amended. \<^verbatim>\<open>finishVoting\<close> has no guard against a second call: it clears the
  deadline and never tests it, so its outcome is the same whatever the deadline field
  holds. Called on a state whose window was already resolved (deadline absent) with a
  column playable, it resolves again: it cancels the pending timer and does nothing else
  to the manager, decides on a playable column with the most votes, places the active
  team's piece in it, records the move and clears the votes; when the move neither
  makes four in a row nor fills the board the game goes on, the other team becomes
  active and the round grows by one; otherwise the game ends with a result and team and
  round stay. Resolving a window at most once is left to the caller.
\<close>

theorem finishVoting_no_guard:
  "finishVoting tm r (gs\<lparr> endsAt := e \<rparr>) players = finishVoting tm r gs players
   \<and> (validColumns (board gs) \<noteq> [] \<and> 0 \<le> r \<and> r < 1 \<longrightarrow>
        (\<exists>b' row tr gs'.
           applyMove (board gs) (chosenFor r gs) (currentTeam gs) = Inr (b', row)
           \<and> finishVoting tm r (gs\<lparr> endsAt := None \<rparr>) players
               = Some (tr, tm\<lparr> currentTimeout := None \<rparr>, gs',
                       creditedPlayers gs (chosenFor r gs) players)
           \<and> moveApplied tr \<and> turnError tr = None
           \<and> chosenColumn tr = Some (chosenFor r gs)
           \<and> isValidMove (board gs) (chosenFor r gs)
           \<and> (\<forall>c. isValidMove (board gs) c \<longrightarrow>
                 votesFor (votes gs) c \<le> votesFor (votes gs) (chosenFor r gs))
           \<and> (gameEnded tr
                \<longleftrightarrow> fourInARow b' (currentTeam gs) (chosenFor r gs) row \<or> isBoardFull b')
           \<and> board gs' = b' \<and> b' \<noteq> board gs
           \<and> cellAt (board gs) row (chosenFor r gs) = Some None
           \<and> cellAt b' row (chosenFor r gs) = Some (Some (currentTeam gs))
           \<and> lastMove gs' = Some \<lparr> mcol = chosenFor r gs, mrow = row, mteam = currentTeam gs \<rparr>
           \<and> votes gs' = [] \<and> endsAt gs' = None
           \<and> perColumnCounts gs' = tallyVotes (votes gs) (validColumns (board gs))
           \<and> (\<not> gameEnded tr \<longrightarrow>
                 currentTeam gs' = nextTeam (currentTeam gs)
                 \<and> nextTeam (currentTeam gs) \<noteq> currentTeam gs
                 \<and> roundNo gs' = roundNo gs + 1 \<and> result gs' = result gs)
           \<and> (gameEnded tr \<longrightarrow>
                 currentTeam gs' = currentTeam gs \<and> roundNo gs' = roundNo gs
                 \<and> result gs' \<noteq> None)))"
proof (intro conjI impI)
  show e: "finishVoting tm r (gs\<lparr> endsAt := e \<rparr>) players = finishVoting tm r gs players" for e
    by (simp add: finishVoting_def)
  assume h: "validColumns (board gs) \<noteq> [] \<and> 0 \<le> r \<and> r < 1"
  then have h': "validColumns (board gs) \<noteq> []" "0 \<le> r" "r < 1" by simp_all
  from finishVoting_playable[OF h'] obtain b' row res where
    a: "applyMove (board gs) (chosenFor r gs) (currentTeam gs) = Inr (b', row)"
    and c: "checkWin b' \<lparr> mcol = chosenFor r gs, mrow = row, mteam = currentTeam gs \<rparr>
              = Some res"
    and w: "winner res = None
           \<longleftrightarrow> \<not> (\<exists>d \<in> set directions. fourThrough b' (currentTeam gs) (chosenFor r gs) row d)" .
  from w have w': "winner res = None \<longleftrightarrow> \<not> fourInARow b' (currentTeam gs) (chosenFor r gs) row"
    unfolding fourInARow_directions .
  from finishVoting_fields[OF h'(1) a c w', of tm players] obtain tr gs' where
    f: "finishVoting tm r gs players
             = Some (tr, tm\<lparr> currentTimeout := None \<rparr>, gs',
                     creditedPlayers gs (chosenFor r gs) players)
           \<and> moveApplied tr \<and> turnError tr = None
           \<and> chosenColumn tr = Some (chosenFor r gs)
           \<and> (gameEnded tr
                \<longleftrightarrow> fourInARow b' (currentTeam gs) (chosenFor r gs) row \<or> isBoardFull b')
           \<and> board gs' = b'
           \<and> lastMove gs' = Some \<lparr> mcol = chosenFor r gs, mrow = row, mteam = currentTeam gs \<rparr>
           \<and> votes gs' = [] \<and> endsAt gs' = None
           \<and> perColumnCounts gs' = tallyVotes (votes gs) (validColumns (board gs))
           \<and> (\<not> gameEnded tr \<longrightarrow>
                 currentTeam gs' = nextTeam (currentTeam gs)
                 \<and> roundNo gs' = roundNo gs + 1 \<and> result gs' = result gs)
           \<and> (gameEnded tr \<longrightarrow>
                 currentTeam gs' = currentTeam gs \<and> roundNo gs' = roundNo gs
                 \<and> result gs' \<noteq> None)"
    by (elim exE)
  from applyMove_Inr[OF a] have "findTargetRow (board gs) (chosenFor r gs) 6 = Some row" by simp
  from findTargetRow_Some[OF this]
  have c0: "cellAt (board gs) row (chosenFor r gs) = Some None" by simp
  from applyMove_cells[OF a, of row "chosenFor r gs"]
  have c1: "cellAt b' row (chosenFor r gs) = Some (Some (currentTeam gs))" by simp
  from c0 c1 have ne: "b' \<noteq> board gs" by auto
  have nt: "nextTeam (currentTeam gs) \<noteq> currentTeam gs"
    by (cases "currentTeam gs") (simp_all add: nextTeam_def)
  have v: "isValidMove (board gs) (chosenFor r gs)"
    using h' by (rule chosenFor_playable(2))
  have m: "\<forall>c. isValidMove (board gs) c \<longrightarrow>
                 votesFor (votes gs) c \<le> votesFor (votes gs) (chosenFor r gs)"
    using chosenFor_majority[OF h'] by blast
  show "\<exists>b' row tr gs'.
           applyMove (board gs) (chosenFor r gs) (currentTeam gs) = Inr (b', row)
           \<and> finishVoting tm r (gs\<lparr> endsAt := None \<rparr>) players
               = Some (tr, tm\<lparr> currentTimeout := None \<rparr>, gs',
                       creditedPlayers gs (chosenFor r gs) players)
           \<and> moveApplied tr \<and> turnError tr = None
           \<and> chosenColumn tr = Some (chosenFor r gs)
           \<and> isValidMove (board gs) (chosenFor r gs)
           \<and> (\<forall>c. isValidMove (board gs) c \<longrightarrow>
                 votesFor (votes gs) c \<le> votesFor (votes gs) (chosenFor r gs))
           \<and> (gameEnded tr
                \<longleftrightarrow> fourInARow b' (currentTeam gs) (chosenFor r gs) row \<or> isBoardFull b')
           \<and> board gs' = b' \<and> b' \<noteq> board gs
           \<and> cellAt (board gs) row (chosenFor r gs) = Some None
           \<and> cellAt b' row (chosenFor r gs) = Some (Some (currentTeam gs))
           \<and> lastMove gs' = Some \<lparr> mcol = chosenFor r gs, mrow = row, mteam = currentTeam gs \<rparr>
           \<and> votes gs' = [] \<and> endsAt gs' = None
           \<and> perColumnCounts gs' = tallyVotes (votes gs) (validColumns (board gs))
           \<and> (\<not> gameEnded tr \<longrightarrow>
                 currentTeam gs' = nextTeam (currentTeam gs)
                 \<and> nextTeam (currentTeam gs) \<noteq> currentTeam gs
                 \<and> roundNo gs' = roundNo gs + 1 \<and> result gs' = result gs)
           \<and> (gameEnded tr \<longrightarrow>
                 currentTeam gs' = currentTeam gs \<and> roundNo gs' = roundNo gs
                 \<and> result gs' \<noteq> None)"
    unfolding e
    apply (rule exI[of _ b'], rule exI[of _ row], rule exI[of _ tr], rule exI[of _ gs'])
    using a f ne c0 c1 nt v m by simp
qed

lemma no_four_in_a_row_second: "\<not> fourInARow afterSecondMove Yellow 3 4"
  unfolding fourInARow_directions by (rule no_four_second)

text \<open>
  The resolved state of the tests' window: with or without a deadline the call does the
  same, and without one it places Yellow's piece in column 3, makes Red active and
  moves the round from 2 to 3.
\<close>

theorem finishVoting_no_guard_witness:
  "validColumns (board resolvedGame) \<noteq> [] \<and> (0::real) \<le> 1 / 2 \<and> (1 / 2 :: real) < 1
   \<and> endsAt resolvedGame = None
   \<and> finishVoting tm0 (1 / 2) (resolvedGame\<lparr> endsAt := Some 15000 \<rparr>) players1
       = finishVoting tm0 (1 / 2) resolvedGame players1
   \<and> (\<exists>tr gs'.
         finishVoting tm0 (1 / 2) (resolvedGame\<lparr> endsAt := None \<rparr>) players1
           = Some (tr, tm0\<lparr> currentTimeout := None \<rparr>, gs', players1)
         \<and> moveApplied tr \<and> \<not> gameEnded tr \<and> chosenColumn tr = Some 3
         \<and> board gs' = afterSecondMove \<and> board gs' \<noteq> board resolvedGame
         \<and> currentTeam resolvedGame = Yellow \<and> currentTeam gs' = Red
         \<and> roundNo gs' = roundNo resolvedGame + 1)"
proof -
  have v: "validColumns (board resolvedGame) \<noteq> []" by (simp add: validColumns_resolvedGame)
  have e: "endsAt resolvedGame = None" by (simp add: resolvedGame_def)
  have t: "currentTeam resolvedGame = Yellow" by (simp add: resolvedGame_def)
  note th = finishVoting_no_guard[where tm = tm0 and r = "1 / 2" and gs = resolvedGame
      and players = players1]
  from conjunct1[OF th, of "Some 15000"]
  have 1: "finishVoting tm0 (1 / 2) (resolvedGame\<lparr> endsAt := Some 15000 \<rparr>) players1
       = finishVoting tm0 (1 / 2) resolvedGame players1" .
  from conjunct2[OF th] v half_unit obtain b' row tr gs' where
    a: "applyMove (board resolvedGame) (chosenFor (1 / 2) resolvedGame)
          (currentTeam resolvedGame) = Inr (b', row)"
    and f: "finishVoting tm0 (1 / 2) (resolvedGame\<lparr> endsAt := None \<rparr>) players1
               = Some (tr, tm0\<lparr> currentTimeout := None \<rparr>, gs',
                       creditedPlayers resolvedGame (chosenFor (1 / 2) resolvedGame) players1)"
    and m: "moveApplied tr" and c: "chosenColumn tr = Some (chosenFor (1 / 2) resolvedGame)"
    and g: "gameEnded tr
       \<longleftrightarrow> fourInARow b' (currentTeam resolvedGame) (chosenFor (1 / 2) resolvedGame) row
           \<or> isBoardFull b'"
    and b: "board gs' = b'" and ne: "b' \<noteq> board resolvedGame"
    and n: "\<not> gameEnded tr \<longrightarrow>
                 currentTeam gs' = nextTeam (currentTeam resolvedGame)
                 \<and> nextTeam (currentTeam resolvedGame) \<noteq> currentTeam resolvedGame
                 \<and> roundNo gs' = roundNo resolvedGame + 1 \<and> result gs' = result resolvedGame"
    by blast
  from a have "b' = afterSecondMove" "row = 4"
    unfolding chosenFor_resolvedGame applyMove_second by simp_all
  note g' = g[unfolded this chosenFor_resolvedGame t]
  from g' no_four_in_a_row_second not_full_second have ng: "\<not> gameEnded tr" by simp
  from n ng t have r: "currentTeam gs' = Red" "roundNo gs' = roundNo resolvedGame + 1"
    by (simp_all add: nextTeam_def)
  have 2: "\<exists>tr gs'.
         finishVoting tm0 (1 / 2) (resolvedGame\<lparr> endsAt := None \<rparr>) players1
           = Some (tr, tm0\<lparr> currentTimeout := None \<rparr>, gs', players1)
         \<and> moveApplied tr \<and> \<not> gameEnded tr \<and> chosenColumn tr = Some 3
         \<and> board gs' = afterSecondMove \<and> board gs' \<noteq> board resolvedGame
         \<and> currentTeam resolvedGame = Yellow \<and> currentTeam gs' = Red
         \<and> roundNo gs' = roundNo resolvedGame + 1"
    apply (rule exI[of _ tr], rule exI[of _ gs'])
    using f m ng c b ne t r \<open>b' = afterSecondMove\<close>
    by (simp add: chosenFor_resolvedGame credited_second)
  show ?thesis by (intro conjI) (rule v half_unit e 1 2)+
qed

subsection \<open>The vote map after a call\<close>




















end
